theory Spec2Isabelle
  imports Complex_Main "HOL-Library.Log_Nat"
begin

section \<open>Needle-position motor controller: numbers, errors and the tick counter\<close>

text \<open>
  The controller is MicroPython. Its numbers are Python integers and floats. A float
  is a binary floating-point number with \<open>prec\<close> significand bits, and every float
  operation rounds its exact result to the nearest such number, ties to the even
  significand. \<open>prec\<close> is 24 where MicroPython is built with single-precision floats
  (the Raspberry Pi Pico) and 53 where it is built with doubles; it is a parameter of
  every routine that computes with floats. The exponent range is not modelled: no
  result overflows or underflows.

  Numbers are carried as rationals. \<open>fl prec x\<close> is the float nearest to \<open>x\<close>. An
  arithmetic operation converts its operands to float, which changes neither a float
  nor an integer of magnitude at most \<open>2 ^ prec\<close>, and rounds the result. Where the
  source computes with two integers the operation is exact. A division whose divisor
  is not a non-zero literal goes through \<open>py_truediv\<close>, which returns the error Python
  would raise. \<open>int(x)\<close> truncates towards zero. \<open>round(x, 3)\<close> is MicroPython's
  \<open>nearbyint(x * 1000) / 1000\<close>, computed in floats.

  \<open>PID.update\<close> is modelled with the same float operations;
  \<open>get_target_rpm_from_pedal\<close> is kept in exact arithmetic.
\<close>

datatype py_error = ZeroDivisionError | AttributeError

definition py_int :: "rat \<Rightarrow> int" where
  "py_int x = (if 0 \<le> x then \<lfloor>x\<rfloor> else \<lceil>x\<rceil>)"

definition round_half_even :: "rat \<Rightarrow> int" where
  "round_half_even x =
     (let f = \<lfloor>x\<rfloor>; d = x - of_int f
      in if d < 1 / 2 then f
         else if 1 / 2 < d then f + 1
         else if even f then f else f + 1)"

text \<open>
  The binary exponent of a non-zero number \<open>x\<close>: the \<open>e\<close> with
  \<open>2 ^ e \<le> \<bar>x\<bar> < 2 ^ (e + 1)\<close>, found from the bit lengths of numerator and
  denominator.
\<close>

definition float_exponent :: "rat \<Rightarrow> int" where
  "float_exponent x =
     (let (a, b) = quotient_of \<bar>x\<bar>;
          e0 = bitlen a - bitlen b
      in if 2 powi e0 \<le> \<bar>x\<bar> then e0 else e0 - 1)"

definition fl :: "nat \<Rightarrow> rat \<Rightarrow> rat" where
  "fl prec x =
     (if x = 0 then 0
      else (let ulp = 2 powi (float_exponent x - int prec + 1)
            in of_int (round_half_even (x / ulp)) * ulp))"

definition fadd :: "nat \<Rightarrow> rat \<Rightarrow> rat \<Rightarrow> rat" where
  "fadd prec x y = fl prec (fl prec x + fl prec y)"

definition fsub :: "nat \<Rightarrow> rat \<Rightarrow> rat \<Rightarrow> rat" where
  "fsub prec x y = fl prec (fl prec x - fl prec y)"

definition fmul :: "nat \<Rightarrow> rat \<Rightarrow> rat \<Rightarrow> rat" where
  "fmul prec x y = fl prec (fl prec x * fl prec y)"

definition fdiv :: "nat \<Rightarrow> rat \<Rightarrow> rat \<Rightarrow> rat" where
  "fdiv prec x y = fl prec (fl prec x / fl prec y)"

definition py_truediv :: "nat \<Rightarrow> rat \<Rightarrow> rat \<Rightarrow> py_error + rat" where
  "py_truediv prec a b = (if b = 0 then Inl ZeroDivisionError else Inr (fdiv prec a b))"

definition py_round3 :: "nat \<Rightarrow> rat \<Rightarrow> rat" where
  "py_round3 prec x = fdiv prec (of_int (round_half_even (fmul prec x 1000))) 1000"

text \<open>
  \<open>utime.ticks_ms()\<close> is a millisecond counter that wraps at \<open>TICKS_PERIOD\<close>, and
  \<open>utime.ticks_diff(a, b)\<close> is the signed difference of two readings, reduced into
  \<open>[-TICKS_PERIOD/2, TICKS_PERIOD/2)\<close>. The argument of \<open>ticks_ms\<close> is the number of
  milliseconds since power-up at the moment of the call; it is supplied by the
  environment of each routine.
\<close>

definition TICKS_PERIOD :: int where
  "TICKS_PERIOD = 2 ^ 30"

definition ticks_ms :: "int \<Rightarrow> int" where
  "ticks_ms t = t mod TICKS_PERIOD"

definition ticks_diff :: "int \<Rightarrow> int \<Rightarrow> int" where
  "ticks_diff a b =
     (a - b + TICKS_PERIOD div 2) mod TICKS_PERIOD - TICKS_PERIOD div 2"

section \<open>config_manager.py\<close>

text \<open>
  The configuration dictionary, with the keys the controller reads. \<open>load_config\<close>
  fills every missing key from \<open>DEFAULT_CONFIG\<close>, so each key is present.
\<close>

record config =
  max_rpm_setting :: rat
  soft_start_time_step_ms :: rat
  soft_start_ramp_steps :: rat
  stop_position_default :: string
  calibrated_motor_power_free_running_percent :: rat
  calibrated_motor_power_load_offset_percent :: rat
  max_motor_rpm :: rat
  pid_enabled :: bool
  kp :: rat
  ki :: rat
  kd :: rat
  autotune_target_rpm :: rat
  autotune_power_high :: rat
  autotune_power_low :: rat

definition DEFAULT_CONFIG :: config where
  "DEFAULT_CONFIG =
     \<lparr> max_rpm_setting = 500,
       soft_start_time_step_ms = 20,
       soft_start_ramp_steps = 50,
       stop_position_default = ''DOWN'',
       calibrated_motor_power_free_running_percent = 80,
       calibrated_motor_power_load_offset_percent = 10,
       max_motor_rpm = 2000,
       pid_enabled = False,
       kp = 1 / 2,
       ki = 1 / 100,
       kd = 1 / 20,
       autotune_target_rpm = 300,
       autotune_power_high = 70,
       autotune_power_low = 30 \<rparr>"

section \<open>motor_control.py\<close>

definition adc_max_value :: int where
  "adc_max_value = 65535"

definition ac_half_cycle_time_us :: int where
  "ac_half_cycle_time_us = 10000"

text \<open>
  The module globals of \<open>motor_control\<close>. \<open>triac_gate_pin\<close> is \<open>None\<close> until
  \<open>init_motor_control\<close> has run, and then holds the level last written to the gate;
  \<open>foot_pedal_adc\<close> says whether the converter object exists.
\<close>

record motor =
  motor_power_percent :: rat
  target_triac_delay_us :: int
  triac_gate_pin :: "bool option"
  foot_pedal_adc :: bool
  last_zero_cross_time_us :: int

text \<open>The values the globals have when the module is loaded, and \<open>init_motor_control\<close>.\<close>

definition motor_globals :: motor where
  "motor_globals =
     \<lparr> motor_power_percent = 0, target_triac_delay_us = ac_half_cycle_time_us,
       triac_gate_pin = None, foot_pedal_adc = False, last_zero_cross_time_us = 0 \<rparr>"

definition init_motor_control :: "motor \<Rightarrow> motor" where
  "init_motor_control m = m\<lparr>triac_gate_pin := Some False, foot_pedal_adc := True\<rparr>"

definition gate_write :: "bool \<Rightarrow> motor \<Rightarrow> motor" where
  "gate_write level m =
     (case triac_gate_pin m of
        None \<Rightarrow> m
      | Some _ \<Rightarrow> m\<lparr>triac_gate_pin := Some level\<rparr>)"

definition set_motor_power :: "nat \<Rightarrow> rat \<Rightarrow> motor \<Rightarrow> motor" where
  "set_motor_power prec percent0 m =
     (let percent = max 0 (min 100 percent0);
          m1 = m\<lparr>motor_power_percent := percent\<rparr>
      in if percent \<le> 5
         then gate_write False (m1\<lparr>target_triac_delay_us := ac_half_cycle_time_us + 100\<rparr>)
         else
           (let min_fire_delay_us = 500;
                max_effective_delay_us = ac_half_cycle_time_us - 200;
                delay_range = max_effective_delay_us - min_fire_delay_us;
                calculated_delay =
                  fadd prec (of_int min_fire_delay_us)
                    (fmul prec (of_int delay_range) (fdiv prec (fsub prec 100 percent) 100))
            in m1\<lparr>target_triac_delay_us := py_int calculated_delay\<rparr>))"


text \<open>\<open>read_foot_pedal\<close>; \<open>raw\<close> is what \<open>read_u16\<close> returns.\<close>

definition read_foot_pedal :: "int \<Rightarrow> motor \<Rightarrow> int" where
  "read_foot_pedal raw m = (if foot_pedal_adc m then raw else 0)"

definition get_target_rpm_from_pedal :: "int \<Rightarrow> rat \<Rightarrow> rat \<Rightarrow> rat" where
  "get_target_rpm_from_pedal pedal_value max_rpm max_motor =
     (if pedal_value < 1000 then 0
      else
        (let normalized_pedal0 = of_int (pedal_value - 1000) / of_int (adc_max_value - 1000);
             normalized_pedal = max 0 (min 1 normalized_pedal0);
             target_rpm = of_int (py_int (normalized_pedal * max_rpm))
         in min target_rpm max_motor))"

subsection \<open>The PID controller\<close>

record pid =
  pid_kp :: rat
  pid_ki :: rat
  pid_kd :: rat
  prev_error :: rat
  integral :: rat
  last_time :: int
  soft_start_current_setpoint :: rat

text \<open>The constructor \<open>PID(kp, ki, kd)\<close>, called at time \<open>t\<close>.\<close>

definition PID :: "int \<Rightarrow> rat \<Rightarrow> rat \<Rightarrow> rat \<Rightarrow> pid" where
  "PID t p i d =
     \<lparr> pid_kp = p, pid_ki = i, pid_kd = d, prev_error = 0, integral = 0,
       last_time = ticks_ms t, soft_start_current_setpoint = 0 \<rparr>"

definition pid_reset :: "int \<Rightarrow> pid \<Rightarrow> pid" where
  "pid_reset t c =
     c\<lparr> prev_error := 0, integral := 0, last_time := ticks_ms t,
        soft_start_current_setpoint := 0 \<rparr>"

text \<open>
  \<open>PID.update(setpoint, current_value)\<close>, called at time \<open>t\<close>: the returned value and
  the controller afterwards.
\<close>

definition pid_update :: "nat \<Rightarrow> int \<Rightarrow> rat \<Rightarrow> rat \<Rightarrow> pid \<Rightarrow> py_error + rat \<times> pid" where
  "pid_update prec t setpoint current_value c =
     (let current_time = ticks_ms t;
          dt = fdiv prec (of_int (ticks_diff current_time (last_time c))) 1000
      in if dt = 0 then Inr (prev_error c, c)
         else
           (let error = fsub prec setpoint current_value;
                p_term = fmul prec (pid_kp c) error;
                integral' = fadd prec (integral c) (fmul prec error dt);
                i_term = fmul prec (pid_ki c) integral'
            in case py_truediv prec (fmul prec (pid_kd c) (fsub prec error (prev_error c))) dt of
                 Inl e \<Rightarrow> Inl e
               | Inr d_term \<Rightarrow>
                   (let output = fadd prec (fadd prec p_term i_term) d_term;
                        output_percent = max 0 (min 100 output)
                    in Inr (output_percent,
                            c\<lparr> integral := integral', prev_error := error,
                               last_time := current_time \<rparr>))))"

section \<open>sensor_manager.py\<close>

definition RPM_POLES :: rat where
  "RPM_POLES = 1"

text \<open>
  The module globals of \<open>sensor_manager\<close>. The needle sensors are input pins: the
  state records whether \<open>init_sensors\<close> has created them, their level is read from the
  environment.
\<close>

record sensors =
  pulse_count :: int
  current_rpm :: int
  last_rpm_calc_time :: int
  last_pulse_time :: int
  needle_up_sensor :: bool
  needle_down_sensor :: bool

text \<open>The values at module load, and \<open>init_sensors\<close> run at time \<open>t\<close>.\<close>

definition sensor_globals :: sensors where
  "sensor_globals =
     \<lparr> pulse_count = 0, current_rpm = 0, last_rpm_calc_time = 0, last_pulse_time = 0,
       needle_up_sensor = False, needle_down_sensor = False \<rparr>"

definition init_sensors :: "int \<Rightarrow> sensors \<Rightarrow> sensors" where
  "init_sensors t s =
     s\<lparr> needle_up_sensor := True, needle_down_sensor := True,
        last_rpm_calc_time := ticks_ms t \<rparr>"

text \<open>The interrupt handler \<open>rpm_pulse_isr\<close>, run at microsecond tick \<open>now_us\<close>.\<close>

definition rpm_pulse_isr :: "int \<Rightarrow> sensors \<Rightarrow> sensors" where
  "rpm_pulse_isr now_us s =
     (if 100 < ticks_diff now_us (last_pulse_time s)
      then s\<lparr>pulse_count := pulse_count s + 1, last_pulse_time := now_us\<rparr>
      else s)"

definition calculate_rpm :: "nat \<Rightarrow> int \<Rightarrow> sensors \<Rightarrow> py_error + int \<times> sensors" where
  "calculate_rpm prec t s =
     (let current_calc_time = ticks_ms t;
          time_since_last_call_ms = ticks_diff current_calc_time (last_rpm_calc_time s);
          s1 = s\<lparr>last_rpm_calc_time := current_calc_time\<rparr>
      in if 0 < time_since_last_call_ms
         then
           (case py_truediv prec (of_int (pulse_count s1)) (of_int time_since_last_call_ms) of
              Inl e \<Rightarrow> Inl e
            | Inr q \<Rightarrow>
                (case py_truediv prec 60 RPM_POLES of
                   Inl e \<Rightarrow> Inl e
                 | Inr per_pole \<Rightarrow>
                     (let rpm_val = fmul prec (fmul prec q 1000) per_pole
                      in Inr (py_int rpm_val,
                              s1\<lparr>current_rpm := py_int rpm_val, pulse_count := 0\<rparr>))))
         else Inr (0, s1\<lparr>current_rpm := 0\<rparr>))"

text \<open>The two needle sensors pull their line low when active.\<close>

definition get_needle_up_status :: "bool \<Rightarrow> sensors \<Rightarrow> bool" where
  "get_needle_up_status level s = (if needle_up_sensor s then \<not> level else False)"

definition get_needle_down_status :: "bool \<Rightarrow> sensors \<Rightarrow> bool" where
  "get_needle_down_status level s = (if needle_down_sensor s then \<not> level else False)"

section \<open>main.py\<close>

text \<open>
  The globals of \<open>main\<close>, together with the module states it works on. \<open>config\<close> is
  the dictionary that \<open>main\<close> imported; writing it to flash (\<open>save_config\<close>) is outside
  the model. The routines are cooperative tasks: between two of their steps only the
  interrupt handler runs, and while they sleep another task may run. Of the other
  tasks the model keeps the stop request of the web interface, which may arrive during
  a sleep of a routine.
\<close>

record app =
  config :: config
  motor_control :: motor
  sensor_manager :: sensors
  is_pedal_pressed :: bool
  soft_start_active :: bool
  current_soft_start_power :: rat
  target_rpm_setpoint :: rat
  last_rpm :: int
  pid_controller :: "pid option"
  last_pid_kp :: "rat option"
  last_pid_ki :: "rat option"
  last_pid_kd :: "rat option"
  max_rpm_calibration_active :: bool
  autotune_active :: bool
  autotune_stage :: int

text \<open>
  The state when \<open>main_loop\<close> has initialised the motor control and, at time \<open>t\<close>,
  the sensors, with the default configuration loaded.
\<close>

definition main_globals :: app where
  "main_globals =
     \<lparr> config = DEFAULT_CONFIG, motor_control = motor_globals,
       sensor_manager = sensor_globals, is_pedal_pressed = False,
       soft_start_active = False, current_soft_start_power = 0,
       target_rpm_setpoint = 0, last_rpm = 0, pid_controller = None,
       last_pid_kp = None, last_pid_ki = None, last_pid_kd = None,
       max_rpm_calibration_active = False, autotune_active = False,
       autotune_stage = 0 \<rparr>"

definition main_loop_init :: "int \<Rightarrow> app \<Rightarrow> app" where
  "main_loop_init t s =
     s\<lparr> motor_control := init_motor_control (motor_control s),
        sensor_manager := init_sensors t (sensor_manager s) \<rparr>"

text \<open>\<open>web_server.stop_operations_web\<close>: the request that cancels both routines.\<close>

definition stop_operations_web :: "nat \<Rightarrow> app \<Rightarrow> app" where
  "stop_operations_web prec s =
     s\<lparr> autotune_active := False, max_rpm_calibration_active := False,
        motor_control := set_motor_power prec 0 (motor_control s) \<rparr>"

text \<open>
  \<open>calculate_rpm()\<close> as a task sees it: the interrupts that fired since the last step
  (their microsecond ticks, in order) have run, then the function is called at
  millisecond time \<open>t\<close>.
\<close>

definition sample_rpm :: "nat \<Rightarrow> int list \<Rightarrow> int \<Rightarrow> app \<Rightarrow> py_error + int \<times> app" where
  "sample_rpm prec isr_ticks t s =
     (case calculate_rpm prec t (fold rpm_pulse_isr isr_ticks (sensor_manager s)) of
        Inl e \<Rightarrow> Inl e
      | Inr (rpm, sm) \<Rightarrow> Inr (rpm, s\<lparr>sensor_manager := sm\<rparr>))"

subsection \<open>Maximum-RPM calibration\<close>

text \<open>What the environment supplies to one pass of the sampling loop.\<close>

record cal_event =
  ce_test_time :: int
  ce_isr_ticks :: "int list"
  ce_calc_time :: int
  ce_stop :: bool

text \<open>
  The body of the \<open>while\<close> loop of \<open>run_max_rpm_calibration\<close>, with the sleep that
  ends it.
\<close>

definition calibration_pass :: "nat \<Rightarrow> cal_event \<Rightarrow> int \<Rightarrow> app \<Rightarrow> py_error + int \<times> app" where
  "calibration_pass prec ev max_observed_rpm s =
     (case sample_rpm prec (ce_isr_ticks ev) (ce_calc_time ev) s of
        Inl e \<Rightarrow> Inl e
      | Inr (rpm, s1) \<Rightarrow>
          (let max_observed_rpm' = (if max_observed_rpm < rpm then rpm else max_observed_rpm);
               s2 = (if ce_stop ev then stop_operations_web prec s1 else s1)
           in Inr (max_observed_rpm', s2)))"

text \<open>
  The loop itself, from its \<open>k\<close>-th test on. The result counts the passes made, and
  is \<open>None\<close> when the loop never ends.
\<close>

partial_function (option) calibration_loop ::
  "nat \<Rightarrow> (nat \<Rightarrow> cal_event) \<Rightarrow> int \<Rightarrow> nat \<Rightarrow> int \<Rightarrow> app \<Rightarrow> (py_error + nat \<times> int \<times> app) option" where
  "calibration_loop prec env start_time k max_observed_rpm s =
     (if ticks_diff (ticks_ms (ce_test_time (env k))) start_time < 0
         \<and> max_rpm_calibration_active s
      then
        (case calibration_pass prec (env k) max_observed_rpm s of
           Inl e \<Rightarrow> Some (Inl e)
         | Inr (max_observed_rpm', s') \<Rightarrow>
             calibration_loop prec env start_time (Suc k) max_observed_rpm' s')
      else Some (Inr (k, max_observed_rpm, s)))"

declare calibration_loop.simps [code]

text \<open>
  \<open>run_max_rpm_calibration\<close>, started at time \<open>t_start\<close>. The result is the number of
  RPM samples taken and the state afterwards.
\<close>

definition run_max_rpm_calibration ::
  "nat \<Rightarrow> int \<Rightarrow> (nat \<Rightarrow> cal_event) \<Rightarrow> app \<Rightarrow> (py_error + nat \<times> app) option" where
  "run_max_rpm_calibration prec t_start env s =
     (let max_observed_rpm = 0;
          s1 = s\<lparr>motor_control := set_motor_power prec 100 (motor_control s)\<rparr>;
          start_time = ticks_ms t_start
      in case calibration_loop prec env start_time 0 max_observed_rpm s1 of
           None \<Rightarrow> None
         | Some (Inl e) \<Rightarrow> Some (Inl e)
         | Some (Inr (n, max_observed_rpm', s2)) \<Rightarrow>
             (let s3 = s2\<lparr>motor_control := set_motor_power prec 0 (motor_control s2)\<rparr>;
                  s4 = (if max_rpm_calibration_active s3
                        then s3\<lparr>config := (config s3)\<lparr>max_motor_rpm := of_int max_observed_rpm'\<rparr>\<rparr>
                        else s3)
              in Some (Inr (n, s4\<lparr>max_rpm_calibration_active := False\<rparr>))))"

subsection \<open>PID autotune\<close>

text \<open>
  The locals of \<open>autotune_pid\<close> that its loop reads: the three settings taken from
  the configuration when the routine starts, the extreme RPM values seen, and the
  time stamps.
\<close>

record tune_locals =
  target_rpm :: rat
  power_high :: rat
  power_low :: rat
  max_rpm_in_oscillation :: int
  min_rpm_in_oscillation :: int
  last_rpm_sample_time :: int
  autotune_start_time :: int
  tuning_timeout :: int

text \<open>What the environment supplies before the loop, and to one pass of it.\<close>

record tune_start =
  ts_reset_time :: int
  ts_stop :: bool
  ts_start_time :: int
  ts_timeout_time :: int
  ts_sample_time :: int

record tune_event =
  te_test_time :: int
  te_isr_ticks :: "int list"
  te_calc_time :: int
  te_gate_time :: int
  te_stamp_time :: int
  te_settle_time :: int
  te_stop :: bool

text \<open>
  The branch of the loop body that is taken once the RPM swing is large enough:
  it derives the gains, writes them to the configuration, and ends the routine.
\<close>

definition autotune_complete :: "nat \<Rightarrow> tune_locals \<Rightarrow> app \<Rightarrow> py_error + app" where
  "autotune_complete prec loc s =
     (let Pu = 2;
          delta_power = fsub prec (power_high loc) (power_low loc);
          delta_rpm_oscillation = max_rpm_in_oscillation loc - min_rpm_in_oscillation loc
      in case (if 0 < delta_rpm_oscillation
               then py_truediv prec delta_power (of_int delta_rpm_oscillation)
               else Inr (1 / 2)) of
           Inl e \<Rightarrow> Inl e
         | Inr Ku \<Rightarrow>
             (let kp_zn = fmul prec (6 / 10) Ku;
                  ti_zn = fdiv prec Pu 2;
                  td_zn = fdiv prec Pu 8
              in case (if 0 < ti_zn then py_truediv prec kp_zn ti_zn else Inr 0) of
                   Inl e \<Rightarrow> Inl e
                 | Inr ki_zn \<Rightarrow>
                     (let kd_zn = fmul prec kp_zn td_zn;
                          cfg = (config s)\<lparr> kp := py_round3 prec kp_zn,
                                            ki := py_round3 prec ki_zn,
                                            kd := py_round3 prec kd_zn, pid_enabled := True \<rparr>
                      in Inr (s\<lparr> config := cfg, autotune_stage := 2,
                                 autotune_active := False,
                                 motor_control := set_motor_power prec 0 (motor_control s) \<rparr>))))"

text \<open>
  The body of the \<open>while\<close> loop. The first component of the result says whether the
  body left the loop by \<open>break\<close>; otherwise the body ends with its sleep, during which
  a stop request may arrive. The comparisons of \<open>last_rpm\<close> in the body guard empty
  branches and are left out.
\<close>

definition autotune_pass ::
  "nat \<Rightarrow> tune_event \<Rightarrow> tune_locals \<Rightarrow> app \<Rightarrow> py_error + bool \<times> tune_locals \<times> app" where
  "autotune_pass prec ev loc s =
     (case sample_rpm prec (te_isr_ticks ev) (te_calc_time ev) s of
        Inl e \<Rightarrow> Inl e
      | Inr (rpm, s1) \<Rightarrow>
          (let asleep = (\<lambda>s'. if te_stop ev then stop_operations_web prec s' else s')
           in if 10 < rpm
                 \<and> 100 \<le> ticks_diff (ticks_ms (te_gate_time ev)) (last_rpm_sample_time loc)
              then
                (let loc1 = loc\<lparr>last_rpm_sample_time := ticks_ms (te_stamp_time ev)\<rparr>;
                     s2 = (if fl prec (of_int rpm) < fmul prec (target_rpm loc) (9 / 10)
                           then s1\<lparr>motor_control :=
                                    set_motor_power prec (power_high loc) (motor_control s1)\<rparr>
                           else if fmul prec (target_rpm loc) (11 / 10) < fl prec (of_int rpm)
                           then s1\<lparr>motor_control :=
                                    set_motor_power prec (power_low loc) (motor_control s1)\<rparr>
                           else s1);
                     loc2 = (if max_rpm_in_oscillation loc1 < rpm
                             then loc1\<lparr>max_rpm_in_oscillation := rpm\<rparr> else loc1);
                     loc3 = (if rpm < min_rpm_in_oscillation loc2
                             then loc2\<lparr>min_rpm_in_oscillation := rpm\<rparr> else loc2)
                 in if 10000 < ticks_diff (ticks_ms (te_settle_time ev)) (autotune_start_time loc3)
                    then
                      (if fmul prec (target_rpm loc3) (1 / 10)
                            < fl prec (of_int (max_rpm_in_oscillation loc3
                                               - min_rpm_in_oscillation loc3))
                       then
                         (case autotune_complete prec loc3 s2 of
                            Inl e \<Rightarrow> Inl e
                          | Inr s3 \<Rightarrow> Inr (True, loc3, s3))
                       else Inr (False, loc3, asleep s2))
                    else Inr (False, loc3, asleep s2))
              else Inr (False, loc, asleep s1)))"

partial_function (option) autotune_loop ::
  "nat \<Rightarrow> (nat \<Rightarrow> tune_event) \<Rightarrow> nat \<Rightarrow> tune_locals \<Rightarrow> app \<Rightarrow> (py_error + tune_locals \<times> app) option" where
  "autotune_loop prec env k loc s =
     (if autotune_active s
         \<and> ticks_diff (ticks_ms (te_test_time (env k))) (tuning_timeout loc) < 0
      then
        (case autotune_pass prec (env k) loc s of
           Inl e \<Rightarrow> Some (Inl e)
         | Inr (broke, loc', s') \<Rightarrow>
             if broke then Some (Inr (loc', s')) else autotune_loop prec env (Suc k) loc' s')
      else Some (Inr (loc, s)))"

declare autotune_loop.simps [code]

text \<open>
  \<open>autotune_pid\<close>. The result is the final value of the loop's locals and the state
  afterwards; \<open>None\<close> when the loop never ends. \<open>pid_controller.reset()\<close> raises when no
  controller exists yet.
\<close>

definition autotune_pid ::
  "nat \<Rightarrow> tune_start \<Rightarrow> (nat \<Rightarrow> tune_event) \<Rightarrow> app \<Rightarrow> (py_error + tune_locals \<times> app) option" where
  "autotune_pid prec st env s =
     (let s1 = s\<lparr>autotune_active := True, autotune_stage := 1\<rparr>
      in case pid_controller s1 of
           None \<Rightarrow> Some (Inl AttributeError)
         | Some c \<Rightarrow>
             (let s2 = s1\<lparr>pid_controller := Some (pid_reset (ts_reset_time st) c)\<rparr>;
                  s3 = s2\<lparr>motor_control :=
                          set_motor_power prec (autotune_power_high (config s)) (motor_control s2)\<rparr>;
                  s4 = (if ts_stop st then stop_operations_web prec s3 else s3);
                  loc = \<lparr> target_rpm = autotune_target_rpm (config s),
                          power_high = autotune_power_high (config s),
                          power_low = autotune_power_low (config s),
                          max_rpm_in_oscillation = 0,
                          min_rpm_in_oscillation = 9999,
                          last_rpm_sample_time = ticks_ms (ts_sample_time st),
                          autotune_start_time = ticks_ms (ts_start_time st),
                          tuning_timeout = ticks_ms (ts_timeout_time st) + 45000 \<rparr>
              in case autotune_loop prec env 0 loc s4 of
                   None \<Rightarrow> None
                 | Some (Inl e) \<Rightarrow> Some (Inl e)
                 | Some (Inr (loc', s5)) \<Rightarrow>
                     (let s6 = (if autotune_active s5 then s5\<lparr>autotune_stage := 0\<rparr> else s5);
                          s7 = s6\<lparr>autotune_active := False\<rparr>
                      in Some (Inr (loc', s7\<lparr>motor_control :=
                                            set_motor_power prec 0 (motor_control s7)\<rparr>)))))"

subsection \<open>The main loop\<close>

text \<open>
  The part of \<open>main_loop\<close> that runs while the pedal is pressed. \<open>press_start\<close> is the
  block that starts a soft start when the pedal has just been pressed, at time \<open>t\<close>.
\<close>

definition press_start :: "int \<Rightarrow> app \<Rightarrow> app" where
  "press_start t s =
     (if \<not> is_pedal_pressed s
      then
        (let s1 = s\<lparr> is_pedal_pressed := True, soft_start_active := True,
                     current_soft_start_power := 0 \<rparr>
         in if pid_enabled (config s1)
            then (case pid_controller s1 of
                    None \<Rightarrow> s1
                  | Some c \<Rightarrow>
                      s1\<lparr>pid_controller :=
                           Some ((pid_reset t c)\<lparr>soft_start_current_setpoint := 0\<rparr>)\<rparr>)
            else s1)
      else s)"

text \<open>The PID control path, with \<open>pid_controller.update\<close> called at time \<open>t\<close>.\<close>

definition pid_path :: "nat \<Rightarrow> int \<Rightarrow> app \<Rightarrow> py_error + app" where
  "pid_path prec t s =
     (case pid_controller s of
        None \<Rightarrow> Inl AttributeError
      | Some c \<Rightarrow>
          if soft_start_active s
          then
            (case py_truediv prec (max_rpm_setting (config s))
                    (soft_start_ramp_steps (config s)) of
               Inl e \<Rightarrow> Inl e
             | Inr rpm_increment_per_step \<Rightarrow>
                 (let c1 = c\<lparr>soft_start_current_setpoint :=
                               fadd prec (soft_start_current_setpoint c)
                                 rpm_increment_per_step\<rparr>;
                      done = (target_rpm_setpoint s \<le> soft_start_current_setpoint c1);
                      c2 = (if done
                            then c1\<lparr>soft_start_current_setpoint := target_rpm_setpoint s\<rparr>
                            else c1);
                      s1 = (if done then s\<lparr>soft_start_active := False\<rparr> else s)
                  in case pid_update prec t (soft_start_current_setpoint c2)
                            (of_int (last_rpm s1)) c2 of
                       Inl e \<Rightarrow> Inl e
                     | Inr (output_power, c3) \<Rightarrow>
                         Inr (s1\<lparr> pid_controller := Some c3,
                                  motor_control :=
                                    set_motor_power prec output_power (motor_control s1) \<rparr>)))
          else
            (case pid_update prec t (target_rpm_setpoint s) (of_int (last_rpm s)) c of
               Inl e \<Rightarrow> Inl e
             | Inr (output_power, c3) \<Rightarrow>
                 Inr (s\<lparr> pid_controller := Some c3,
                         motor_control := set_motor_power prec output_power (motor_control s) \<rparr>)))"

text \<open>The target power of the open-loop path.\<close>

definition open_loop_target :: "nat \<Rightarrow> int \<Rightarrow> config \<Rightarrow> rat" where
  "open_loop_target prec pedal_value cfg =
     (let base_power_needed_for_max_rpm = calibrated_motor_power_free_running_percent cfg;
          additional_power_for_load = calibrated_motor_power_load_offset_percent cfg;
          max_effective_power_setting =
            fadd prec base_power_needed_for_max_rpm additional_power_for_load;
          scaled_pedal0 =
            fdiv prec (of_int (pedal_value - 1000)) (of_int (adc_max_value - 1000));
          scaled_pedal = max 0 (min 1 scaled_pedal0);
          p0 = fmul prec scaled_pedal max_effective_power_setting;
          p1 = min p0 max_effective_power_setting
      in min p1 100)"

definition open_loop_path :: "nat \<Rightarrow> int \<Rightarrow> app \<Rightarrow> py_error + app" where
  "open_loop_path prec pedal_value s =
     (let current_target_power_percent = open_loop_target prec pedal_value (config s)
      in if soft_start_active s
         then
           (case py_truediv prec current_target_power_percent
                   (soft_start_ramp_steps (config s)) of
              Inl e \<Rightarrow> Inl e
            | Inr power_increment_per_step \<Rightarrow>
                (let p = fadd prec (current_soft_start_power s) power_increment_per_step;
                     s1 = (if current_target_power_percent \<le> p
                           then s\<lparr> current_soft_start_power := current_target_power_percent,
                                   soft_start_active := False \<rparr>
                           else s\<lparr>current_soft_start_power := p\<rparr>)
                 in Inr (s1\<lparr>motor_control :=
                              set_motor_power prec (current_soft_start_power s1) (motor_control s1)\<rparr>)))
         else Inr (s\<lparr>motor_control :=
                       set_motor_power prec current_target_power_percent (motor_control s)\<rparr>))"

text \<open>
  The branch \<open>pedal_value > 1000\<close> of one pass of the main loop: \<open>t_reset\<close> is the
  time of the controller reset on a fresh press, \<open>t_update\<close> that of the PID update.
\<close>

definition pedal_pressed :: "nat \<Rightarrow> int \<Rightarrow> int \<Rightarrow> int \<Rightarrow> app \<Rightarrow> py_error + app" where
  "pedal_pressed prec t_reset t_update pedal_value s =
     (let s1 = press_start t_reset s;
          s2 = s1\<lparr>target_rpm_setpoint :=
                  get_target_rpm_from_pedal pedal_value (max_rpm_setting (config s1))
                    (max_motor_rpm (config s1))\<rparr>
      in if pid_enabled (config s2) then pid_path prec t_update s2
         else open_loop_path prec pedal_value s2)"

subsection \<open>The needle stop sequence\<close>

text \<open>
  What is printed when the stop sequence ends, and what the environment supplies to
  one pass of its polling loop: the level of the pin of the chosen sensor at the
  loop test, and the times.
\<close>

datatype stop_report = NeedleStopped | NeedleStopTimedOut

record stop_event =
  se_pin_level :: bool
  se_test_time :: int
  se_isr_ticks :: "int list"
  se_calc_time :: int

definition target_sensor_func :: "bool \<Rightarrow> app \<Rightarrow> bool" where
  "target_sensor_func level s =
     (if stop_position_default (config s) = ''DOWN''
      then get_needle_down_status level (sensor_manager s)
      else get_needle_up_status level (sensor_manager s))"

definition stop_poll_pass :: "nat \<Rightarrow> stop_event \<Rightarrow> app \<Rightarrow> py_error + app" where
  "stop_poll_pass prec ev s =
     (case sample_rpm prec (se_isr_ticks ev) (se_calc_time ev) s of
        Inl e \<Rightarrow> Inl e
      | Inr (rpm, s1) \<Rightarrow> Inr (s1\<lparr>last_rpm := rpm\<rparr>))"

text \<open>
  The first step of the needle stop logic: the creep power \<open>stop_power\<close> is
  commanded.
\<close>

definition needle_stop_begin :: "nat \<Rightarrow> app \<Rightarrow> app" where
  "needle_stop_begin prec s =
     (let stop_power = 5
      in s\<lparr>motor_control := set_motor_power prec stop_power (motor_control s)\<rparr>)"

text \<open>
  The polling loop from its \<open>k\<close>-th test on. The result counts the passes made, and
  is \<open>None\<close> when the loop never ends.
\<close>

partial_function (option) needle_stop_loop ::
  "nat \<Rightarrow> (nat \<Rightarrow> stop_event) \<Rightarrow> int \<Rightarrow> nat \<Rightarrow> app \<Rightarrow> (py_error + nat \<times> app) option" where
  "needle_stop_loop prec env stop_timeout k s =
     (if \<not> target_sensor_func (se_pin_level (env k)) s
         \<and> ticks_diff (ticks_ms (se_test_time (env k))) stop_timeout < 0
      then
        (case stop_poll_pass prec (env k) s of
           Inl e \<Rightarrow> Some (Inl e)
         | Inr s' \<Rightarrow> needle_stop_loop prec env stop_timeout (Suc k) s')
      else Some (Inr (k, s)))"

declare needle_stop_loop.simps [code]


text \<open>
  The needle stop logic: \<open>t_stamp\<close> is the time at which \<open>stop_timeout\<close> is computed,
  \<open>final_level\<close> the pin level at the sensor read that chooses the message. The
  result is the number of polling passes made, the message, and the state.
\<close>

definition needle_stop_sequence ::
  "nat \<Rightarrow> int \<Rightarrow> (nat \<Rightarrow> stop_event) \<Rightarrow> bool \<Rightarrow> app \<Rightarrow> (py_error + nat \<times> stop_report \<times> app) option" where
  "needle_stop_sequence prec t_stamp env final_level s =
     (let s1 = needle_stop_begin prec s;
          stop_timeout = ticks_ms t_stamp + 5000
      in case needle_stop_loop prec env stop_timeout 0 s1 of
           None \<Rightarrow> None
         | Some (Inl e) \<Rightarrow> Some (Inl e)
         | Some (Inr (n, s2)) \<Rightarrow>
             (let s3 = s2\<lparr>motor_control := set_motor_power prec 0 (motor_control s2)\<rparr>
              in Some (Inr (n,
                            (if target_sensor_func final_level s3
                             then NeedleStopped else NeedleStopTimedOut),
                            s3))))"

text \<open>
  The branch of one pass of the main loop that runs when the pedal is not pressed.
  No message is printed when the pedal was not pressed before either.
\<close>

definition pedal_released ::
  "nat \<Rightarrow> int \<Rightarrow> int \<Rightarrow> (nat \<Rightarrow> stop_event) \<Rightarrow> bool \<Rightarrow> app
     \<Rightarrow> (py_error + stop_report option \<times> app) option" where
  "pedal_released prec t_reset t_stamp env final_level s =
     (if is_pedal_pressed s
      then
        (let s1 = s\<lparr> is_pedal_pressed := False, soft_start_active := False,
                     pid_controller := map_option (pid_reset t_reset) (pid_controller s) \<rparr>
         in case needle_stop_sequence prec t_stamp env final_level s1 of
              None \<Rightarrow> None
            | Some (Inl e) \<Rightarrow> Some (Inl e)
            | Some (Inr (n, report, s2)) \<Rightarrow> Some (Inr (Some report, s2)))
      else Some (Inr (None, s\<lparr>motor_control := set_motor_power prec 0 (motor_control s)\<rparr>)))"

text \<open>What the environment supplies to one pass of the main loop.\<close>

record loop_event =
  le_isr_ticks :: "int list"
  le_calc_time :: int
  le_new_time :: int
  le_init_time :: int
  le_pedal_raw :: int
  le_reset_time :: int
  le_update_time :: int
  le_stamp_time :: int
  le_stop_env :: "nat \<Rightarrow> stop_event"
  le_final_level :: bool

text \<open>
  The check that creates the controller anew when the configured gains differ from
  those last applied.
\<close>

definition pid_init_check :: "int \<Rightarrow> int \<Rightarrow> app \<Rightarrow> app" where
  "pid_init_check t_new t_init s =
     (if pid_controller s = None
         \<or> Some (kp (config s)) \<noteq> last_pid_kp s
         \<or> Some (ki (config s)) \<noteq> last_pid_ki s
         \<or> Some (kd (config s)) \<noteq> last_pid_kd s
      then s\<lparr> pid_controller :=
                Some (pid_reset t_init
                        (PID t_new (kp (config s)) (ki (config s)) (kd (config s)))),
              last_pid_kp := Some (kp (config s)),
              last_pid_ki := Some (ki (config s)),
              last_pid_kd := Some (kd (config s)) \<rparr>
      else s)"

text \<open>One pass of the \<open>while True\<close> loop of \<open>main_loop\<close>.\<close>

definition main_loop_pass :: "nat \<Rightarrow> loop_event \<Rightarrow> app \<Rightarrow> (py_error + app) option" where
  "main_loop_pass prec ev s =
     (case sample_rpm prec (le_isr_ticks ev) (le_calc_time ev) s of
        Inl e \<Rightarrow> Some (Inl e)
      | Inr (rpm, s0) \<Rightarrow>
          (let s1 = s0\<lparr>last_rpm := rpm\<rparr>
           in if max_rpm_calibration_active s1
              then Some (Inr (s1\<lparr>motor_control := set_motor_power prec 0 (motor_control s1)\<rparr>))
              else if autotune_active s1
              then Some (Inr (s1\<lparr>motor_control := set_motor_power prec 0 (motor_control s1)\<rparr>))
              else
                (let s2 = pid_init_check (le_new_time ev) (le_init_time ev) s1;
                     pedal_value = read_foot_pedal (le_pedal_raw ev) (motor_control s2)
                 in if 1000 < pedal_value
                    then Some (pedal_pressed prec (le_reset_time ev) (le_update_time ev)
                                 pedal_value s2)
                    else
                      (case pedal_released prec (le_reset_time ev) (le_stamp_time ev)
                              (le_stop_env ev) (le_final_level ev) s2 of
                         None \<Rightarrow> None
                       | Some (Inl e) \<Rightarrow> Some (Inl e)
                       | Some (Inr (report, s3)) \<Rightarrow> Some (Inr s3)))))"

section \<open>Float rounding\<close>

subsection \<open>Rounding to an integer\<close>

lemma round_half_even_cases:
  "round_half_even x = \<lfloor>x\<rfloor> \<or> round_half_even x = \<lfloor>x\<rfloor> + 1"
  by (simp add: round_half_even_def Let_def)

lemma round_half_even_of_int [simp]: "round_half_even (of_int n) = n"
  by (simp add: round_half_even_def Let_def)

lemma round_half_even_error: "\<bar>of_int (round_half_even x) - x\<bar> \<le> 1 / 2"
proof -
  have "of_int \<lfloor>x\<rfloor> \<le> x" "x < of_int \<lfloor>x\<rfloor> + 1" by linarith+
  then show ?thesis
    by (auto simp: round_half_even_def Let_def abs_le_iff)
qed

lemma round_half_even_mono:
  assumes "x \<le> y"
  shows "round_half_even x \<le> round_half_even y"
proof (cases "\<lfloor>x\<rfloor> = \<lfloor>y\<rfloor>")
  case True
  then show ?thesis using assms
    by (auto simp: round_half_even_def Let_def)
next
  case False
  then have "\<lfloor>x\<rfloor> < \<lfloor>y\<rfloor>" using floor_mono [OF assms] by linarith
  moreover have "round_half_even x \<le> \<lfloor>x\<rfloor> + 1" using round_half_even_cases [of x] by linarith
  moreover have "\<lfloor>y\<rfloor> \<le> round_half_even y" using round_half_even_cases [of y] by linarith
  ultimately show ?thesis by linarith
qed

lemma round_half_even_minus: "round_half_even (- x) = - round_half_even x"
proof (cases "x = of_int \<lfloor>x\<rfloor>")
  case True
  then obtain n where "x = of_int n" by blast
  then have "- x = of_int (- n)" by simp
  then show ?thesis using \<open>x = of_int n\<close> by (simp only: round_half_even_of_int)
next
  case False
  then have lt: "of_int \<lfloor>x\<rfloor> < x" "x < of_int \<lfloor>x\<rfloor> + 1" by linarith+
  have fm: "\<lfloor>- x\<rfloor> = - \<lfloor>x\<rfloor> - 1"
    using lt by (intro floor_unique) auto
  show ?thesis
    using lt by (auto simp: round_half_even_def Let_def fm)
qed

subsection \<open>The exponent\<close>

lemma float_exponent_bounds:
  assumes "x \<noteq> 0"
  shows "2 powi float_exponent x \<le> \<bar>x\<bar>" and "\<bar>x\<bar> < 2 powi (float_exponent x + 1)"
proof -
  obtain a b where q: "quotient_of \<bar>x\<bar> = (a, b)" by (cases "quotient_of \<bar>x\<bar>")
  have b: "0 < b" using quotient_of_denom_pos [OF q] .
  have x: "\<bar>x\<bar> = of_int a / of_int b" using quotient_of_div [OF q] .
  have "0 < \<bar>x\<bar>" using assms by simp
  then have a: "0 < a" using x b by (simp add: zero_less_divide_iff)
  let ?la = "bitlen a" and ?lb = "bitlen b"
  have la: "2 ^ nat (?la - 1) \<le> a" "a < 2 ^ nat ?la" using bitlen_bounds [OF a] by auto
  have lb: "2 ^ nat (?lb - 1) \<le> b" "b < 2 ^ nat ?lb" using bitlen_bounds [OF b] by auto
  have la1: "1 \<le> ?la" using a by (simp add: bitlen_def floorlog_def)
  have lb1: "1 \<le> ?lb" using b by (simp add: bitlen_def floorlog_def)
  have pa: "(2::rat) powi (?la - 1) \<le> of_int a" "of_int a < (2::rat) powi ?la"
  proof -
    have "(2::rat) powi (?la - 1) = of_int (2 ^ nat (?la - 1))"
      using la1 by (simp add: power_int_def)
    also have "\<dots> \<le> of_int a" using la(1) by (simp only: of_int_le_iff)
    finally show "(2::rat) powi (?la - 1) \<le> of_int a" .
    have "(of_int a :: rat) < of_int (2 ^ nat ?la)" using la(2) by (simp only: of_int_less_iff)
    also have "\<dots> = 2 powi ?la" using la1 by (simp add: power_int_def)
    finally show "of_int a < (2::rat) powi ?la" .
  qed
  have pb: "(2::rat) powi (?lb - 1) \<le> of_int b" "of_int b < (2::rat) powi ?lb"
  proof -
    have "(2::rat) powi (?lb - 1) = of_int (2 ^ nat (?lb - 1))"
      using lb1 by (simp add: power_int_def)
    also have "\<dots> \<le> of_int b" using lb(1) by (simp only: of_int_le_iff)
    finally show "(2::rat) powi (?lb - 1) \<le> of_int b" .
    have "(of_int b :: rat) < of_int (2 ^ nat ?lb)" using lb(2) by (simp only: of_int_less_iff)
    also have "\<dots> = 2 powi ?lb" using lb1 by (simp add: power_int_def)
    finally show "of_int b < (2::rat) powi ?lb" .
  qed
  have bpos: "(0::rat) < of_int b" using b by simp
  have apos: "(0::rat) < of_int a" using a by simp
  have up: "\<bar>x\<bar> < 2 powi (?la - ?lb + 1)"
  proof -
    have "of_int a / of_int b < (2::rat) powi ?la / of_int b"
      using pa(2) bpos by (simp add: divide_strict_right_mono)
    also have "\<dots> \<le> 2 powi ?la / 2 powi (?lb - 1)"
      using pb(1) by (intro divide_left_mono) (auto intro!: mult_pos_pos zero_less_power_int bpos)
    also have "\<dots> = 2 powi (?la - (?lb - 1))" by (simp add: power_int_diff)
    finally show ?thesis unfolding x by (simp add: algebra_simps)
  qed
  have low: "2 powi (?la - ?lb - 1) < \<bar>x\<bar>"
  proof -
    have "(2::rat) powi (?la - ?lb - 1) = 2 powi ((?la - 1) - ?lb)" by (simp add: algebra_simps)
    also have "\<dots> = 2 powi (?la - 1) / 2 powi ?lb" by (simp add: power_int_diff)
    also have "\<dots> < 2 powi (?la - 1) / of_int b"
      using pb(2) bpos by (intro divide_strict_left_mono) (auto intro!: mult_pos_pos zero_less_power_int)
    also have "\<dots> \<le> of_int a / of_int b"
      using pa(1) bpos by (simp add: divide_right_mono)
    finally show ?thesis unfolding x .
  qed
  have e: "float_exponent x = (if 2 powi (?la - ?lb) \<le> \<bar>x\<bar> then ?la - ?lb else ?la - ?lb - 1)"
    by (simp add: float_exponent_def q Let_def)
  show "2 powi float_exponent x \<le> \<bar>x\<bar>"
    using low unfolding e by (auto simp: less_imp_le)
  show "\<bar>x\<bar> < 2 powi (float_exponent x + 1)"
    using up unfolding e by (auto simp: not_le)
qed

lemma float_exponent_unique:
  assumes "2 powi k \<le> \<bar>x\<bar>" "\<bar>x\<bar> < 2 powi (k + 1)"
  shows "float_exponent x = k"
proof -
  have pos: "0 < (2::rat) powi k" by (simp add: zero_less_power_int)
  have nz: "x \<noteq> 0"
  proof
    assume "x = 0"
    then have "(2::rat) powi k \<le> 0" using assms(1) by simp
    then show False using pos by linarith
  qed
  note b = float_exponent_bounds [OF nz]
  have "(2::rat) powi k < 2 powi (float_exponent x + 1)" using assms(1) b(2) by linarith
  then have 1: "k < float_exponent x + 1"
    by (metis power_int_increasing not_le one_le_numeral)
  have "(2::rat) powi float_exponent x < 2 powi (k + 1)" using assms(2) b(1) by linarith
  then have 2: "float_exponent x < k + 1"
    by (metis power_int_increasing not_le one_le_numeral)
  show ?thesis using 1 2 by linarith
qed

lemma float_exponent_minus [simp]: "float_exponent (- x) = float_exponent x"
  by (simp add: float_exponent_def)

lemma float_exponent_mono:
  assumes "0 < x" "x \<le> y"
  shows "float_exponent x \<le> float_exponent y"
proof -
  have nz: "x \<noteq> 0" "y \<noteq> 0" using assms by auto
  have "2 powi float_exponent x \<le> \<bar>x\<bar>" using float_exponent_bounds(1) [OF nz(1)] .
  also have "\<dots> \<le> \<bar>y\<bar>" using assms by simp
  also have "\<dots> < 2 powi (float_exponent y + 1)" using float_exponent_bounds(2) [OF nz(2)] .
  finally have "float_exponent x < float_exponent y + 1"
    by (metis power_int_increasing not_le one_le_numeral)
  then show ?thesis by linarith
qed

subsection \<open>Rounding to a float\<close>

lemma pow_ulp: "(2::rat) ^ p * 2 powi (e - int p + 1) = 2 powi (e + 1)"
proof -
  have "(2::rat) ^ p * 2 powi (e - int p + 1) = 2 powi (int p) * 2 powi (e - int p + 1)"
    by simp
  also have "\<dots> = 2 powi (int p + (e - int p + 1))"
    by (rule power_int_add [symmetric]) simp
  also have "int p + (e - int p + 1) = e + 1" by simp
  finally show ?thesis .
qed

lemma fl_zero [simp]: "fl p 0 = 0"
  by (simp add: fl_def)

lemma fl_minus: "fl p (- x) = - fl p x"
  by (simp add: fl_def Let_def round_half_even_minus)

lemma round_half_even_nonneg: "0 \<le> x \<Longrightarrow> 0 \<le> round_half_even x"
  using round_half_even_mono [of 0 x] round_half_even_of_int [of 0] by simp

lemma fl_nonneg:
  assumes "0 \<le> x"
  shows "0 \<le> fl p x"
proof (cases "x = 0")
  case True then show ?thesis by simp
next
  case False
  define ulp :: rat where "ulp = 2 powi (float_exponent x - int p + 1)"
  have ulp: "0 < ulp" by (simp add: ulp_def)
  have "0 \<le> x / ulp" using assms ulp by simp
  then have "0 \<le> round_half_even (x / ulp)" by (rule round_half_even_nonneg)
  then have "(0::rat) \<le> of_int (round_half_even (x / ulp)) * ulp"
    using ulp by (intro mult_nonneg_nonneg) auto
  then show ?thesis using False by (simp add: fl_def Let_def ulp_def)
qed

lemma fl_error_ulp:
  assumes "x \<noteq> 0"
  shows "\<bar>fl p x - x\<bar> \<le> 2 powi (float_exponent x - int p)"
proof -
  define ulp :: rat where "ulp = 2 powi (float_exponent x - int p + 1)"
  have ulp: "0 < ulp" by (simp add: ulp_def)
  have half: "ulp / 2 = 2 powi (float_exponent x - int p)"
    by (simp add: ulp_def power_int_add)
  have "fl p x = of_int (round_half_even (x / ulp)) * ulp"
    using assms by (simp add: fl_def Let_def ulp_def)
  then have "fl p x - x = (of_int (round_half_even (x / ulp)) - x / ulp) * ulp"
    using ulp by (simp add: algebra_simps)
  then have "\<bar>fl p x - x\<bar> = \<bar>of_int (round_half_even (x / ulp)) - x / ulp\<bar> * ulp"
    using ulp by (simp add: abs_mult)
  also have "\<dots> \<le> (1 / 2) * ulp"
    using round_half_even_error [of "x / ulp"] ulp by (intro mult_right_mono) auto
  finally show ?thesis using half by simp
qed

lemma fl_error: "\<bar>fl p x - x\<bar> \<le> \<bar>x\<bar> / 2 ^ p"
proof (cases "x = 0")
  case True then show ?thesis by simp
next
  case False
  have "\<bar>fl p x - x\<bar> \<le> 2 powi (float_exponent x - int p)" using fl_error_ulp [OF False] .
  also have "\<dots> = 2 powi float_exponent x / 2 ^ p"
    by (simp add: power_int_diff)
  also have "\<dots> \<le> \<bar>x\<bar> / 2 ^ p"
    using float_exponent_bounds(1) [OF False] by (simp add: divide_right_mono)
  finally show ?thesis .
qed

lemma fl_lower: "0 \<le> x \<Longrightarrow> x * (1 - 1 / 2 ^ p) \<le> fl p x"
  using fl_error [of p x] by (simp add: abs_le_iff algebra_simps)

lemma fl_upper: "0 \<le> x \<Longrightarrow> fl p x \<le> x * (1 + 1 / 2 ^ p)"
  using fl_error [of p x] by (simp add: abs_le_iff algebra_simps)

lemma fl_on_grid:
  assumes x: "x = of_int m * 2 powi k" and m: "\<bar>m\<bar> \<le> 2 ^ p" and p: "1 \<le> p"
  shows "fl p x = x"
proof (cases "x = 0")
  case True then show ?thesis by simp
next
  case False
  define e where "e = float_exponent x"
  define ulp :: rat where "ulp = 2 powi (e - int p + 1)"
  have ulp: "0 < ulp" by (simp add: ulp_def)
  have ax: "\<bar>x\<bar> = of_int \<bar>m\<bar> * 2 powi k"
    by (simp add: x abs_mult)
  have "\<bar>x\<bar> \<le> of_int (2 ^ p) * 2 powi k"
  proof -
    have "(of_int \<bar>m\<bar> :: rat) \<le> of_int (2 ^ p)" using m by (simp only: of_int_le_iff)
    then show ?thesis unfolding ax by (intro mult_right_mono) (auto simp: less_imp_le)
  qed
  also have "\<dots> = 2 powi (int p + k)" by (simp add: power_int_add)
  finally have xle: "\<bar>x\<bar> \<le> 2 powi (int p + k)" .
  have "2 powi e \<le> \<bar>x\<bar>" unfolding e_def using float_exponent_bounds(1) [OF False] .
  then have "(2::rat) powi e \<le> 2 powi (int p + k)" using xle by linarith
  then have ele: "e \<le> int p + k"
    by (metis power_int_strict_increasing not_le one_less_numeral_iff semiring_norm(76))
  have "\<exists>j. x / ulp = of_int j"
  proof (cases "e < int p + k")
    case True
    then have nn: "0 \<le> k - (e - int p + 1)" by linarith
    have "x / ulp = of_int m * 2 powi (k - (e - int p + 1))"
      by (simp add: x ulp_def power_int_diff)
    also have "\<dots> = of_int (m * 2 ^ nat (k - (e - int p + 1)))"
      using nn by (simp add: power_int_def)
    finally show ?thesis by blast
  next
    case False
    then have e: "e = int p + k" using ele by linarith
    have "2 powi (int p + k) \<le> \<bar>x\<bar>"
      using float_exponent_bounds(1) [OF \<open>x \<noteq> 0\<close>] unfolding e_def [symmetric] e .
    then have "\<bar>x\<bar> = 2 powi (int p + k)" using xle by linarith
    then have "of_int \<bar>m\<bar> * 2 powi k = (2::rat) ^ p * 2 powi k"
      unfolding ax by (simp add: power_int_add)
    then have "(of_int \<bar>m\<bar> :: rat) = 2 ^ p" by simp
    then have "(of_int \<bar>m\<bar> :: rat) = of_int (2 ^ p)" by simp
    then have am: "\<bar>m\<bar> = 2 ^ p" by (simp only: of_int_eq_iff)
    obtain q where q: "p = Suc q" using p by (cases p) auto
    have "m = 2 ^ p \<or> m = - (2 ^ p)" using am by linarith
    then have "m = 2 * (m div 2)" using q by auto
    then have m2: "(of_int m :: rat) = 2 * of_int (m div 2)"
      by (metis of_int_mult of_int_numeral)
    have "x / ulp = of_int m * 2 powi (k - (e - int p + 1))"
      by (simp add: x ulp_def power_int_diff)
    also have "k - (e - int p + 1) = - 1" using e by simp
    also have "of_int m * (2::rat) powi (- 1) = of_int (m div 2)"
      by (subst m2) simp
    finally show ?thesis by blast
  qed
  then obtain j where j: "x / ulp = of_int j" by blast
  have "fl p x = of_int (round_half_even (x / ulp)) * ulp"
    using \<open>x \<noteq> 0\<close> by (simp add: fl_def Let_def ulp_def e_def)
  also have "\<dots> = of_int j * ulp" unfolding j by simp
  also have "\<dots> = x" using j ulp by (simp add: field_simps)
  finally show ?thesis .
qed

lemma fl_of_int:
  assumes "\<bar>n\<bar> \<le> 2 ^ p" "1 \<le> p"
  shows "fl p (of_int n) = of_int n"
  using fl_on_grid [of "of_int n" n 0 p] assms by simp

lemma fl_ulp_form:
  assumes "x \<noteq> 0"
  shows "fl p x = of_int (round_half_even (x / 2 powi (float_exponent x - int p + 1)))
                    * 2 powi (float_exponent x - int p + 1)"
  using assms by (simp add: fl_def Let_def)

lemma fl_idem:
  assumes "1 \<le> p"
  shows "fl p (fl p x) = fl p x"
proof (cases "x = 0")
  case True then show ?thesis by simp
next
  case False
  define e where "e = float_exponent x"
  define ulp :: rat where "ulp = 2 powi (e - int p + 1)"
  define j where "j = round_half_even (x / ulp)"
  have ulp: "0 < ulp" by (simp add: ulp_def)
  have f: "fl p x = of_int j * 2 powi (e - int p + 1)"
    using fl_ulp_form [OF False, of p] by (simp add: j_def ulp_def e_def)
  have b: "2 powi e \<le> \<bar>x\<bar>" "\<bar>x\<bar> < 2 powi (e + 1)"
    using float_exponent_bounds [OF False] by (simp_all add: e_def)
  have "\<bar>x / ulp\<bar> \<le> 2 powi (e + 1) / ulp"
    using b(2) ulp by (simp add: abs_divide divide_right_mono less_imp_le)
  also have "2 powi (e + 1) / ulp = of_int (2 ^ p)"
    by (simp add: ulp_def power_int_diff [symmetric])
  finally have a: "\<bar>x / ulp\<bar> \<le> of_int (2 ^ p)" .
  have up: "x / ulp \<le> of_int (2 ^ p)" "of_int (- (2 ^ p)) \<le> x / ulp"
    using a unfolding of_int_minus by linarith+
  have "j \<le> 2 ^ p" "- (2 ^ p) \<le> j"
    using round_half_even_mono [OF up(1)] round_half_even_mono [OF up(2)]
    unfolding j_def by (simp_all only: round_half_even_of_int)
  then have "\<bar>j\<bar> \<le> 2 ^ p" by linarith
  from fl_on_grid [OF f this assms] show ?thesis .
qed

lemma fl_le_pow:
  assumes "0 < x" "x \<le> 2 powi k" "1 \<le> p"
  shows "fl p x \<le> 2 powi k"
proof -
  have nz: "x \<noteq> 0" using assms by simp
  define e where "e = float_exponent x"
  define ulp :: rat where "ulp = 2 powi (e - int p + 1)"
  have ulp: "0 < ulp" by (simp add: ulp_def)
  have b: "2 powi e \<le> x" "x < 2 powi (e + 1)"
    using float_exponent_bounds [OF nz] assms(1) by (simp_all add: e_def)
  have "(2::rat) powi e \<le> 2 powi k" using b(1) assms(2) by linarith
  then have ek: "e \<le> k"
    by (metis power_int_strict_increasing not_le one_less_numeral_iff semiring_norm(76))
  show ?thesis
  proof (cases "e = k")
    case True
    then have "x = 2 powi k" using b(1) assms(2) by simp
    then have "x = of_int 1 * 2 powi k" by simp
    from fl_on_grid [OF this _ assms(3)] have "fl p x = x" by simp
    then show ?thesis using assms(2) by simp
  next
    case False
    then have "e + 1 \<le> k" using ek by linarith
    have "x / ulp \<le> 2 powi (e + 1) / ulp"
      using b(2) ulp by (simp add: divide_right_mono less_imp_le)
    also have "2 powi (e + 1) / ulp = of_int (2 ^ p)"
      by (simp add: ulp_def power_int_diff [symmetric])
    finally have "round_half_even (x / ulp) \<le> 2 ^ p"
      using round_half_even_mono [of "x / ulp" "of_int (2 ^ p)"]
      by (simp only: round_half_even_of_int)
    then have "(of_int (round_half_even (x / ulp)) :: rat) \<le> of_int (2 ^ p)"
      by (simp only: of_int_le_iff)
    then have "of_int (round_half_even (x / ulp)) * ulp \<le> of_int (2 ^ p) * ulp"
      using ulp by (intro mult_right_mono) auto
    also have "of_int (2 ^ p) * ulp = 2 powi (e + 1)"
      using pow_ulp [of p e] by (simp add: ulp_def)
    also have "\<dots> \<le> 2 powi k" using \<open>e + 1 \<le> k\<close> by (intro power_int_increasing) auto
    finally show ?thesis using nz by (simp add: fl_def Let_def ulp_def e_def)
  qed
qed

lemma fl_ge_pow:
  assumes "2 powi k \<le> x" "1 \<le> p"
  shows "2 powi k \<le> fl p x"
proof -
  have pos: "0 < (2::rat) powi k" by simp
  have xpos: "0 < x" using assms(1) pos by linarith
  have nz: "x \<noteq> 0" using xpos by simp
  define e where "e = float_exponent x"
  define ulp :: rat where "ulp = 2 powi (e - int p + 1)"
  have ulp: "0 < ulp" by (simp add: ulp_def)
  have b: "2 powi e \<le> x" "x < 2 powi (e + 1)"
    using float_exponent_bounds [OF nz] xpos by (simp_all add: e_def)
  have "(2::rat) powi k < 2 powi (e + 1)" using b(2) assms(1) by linarith
  then have "k < e + 1"
    by (metis power_int_increasing not_le one_le_numeral)
  then have ke: "k \<le> e" by linarith
  obtain q where q: "p = Suc q" using assms(2) by (cases p) auto
  have "2 powi e / ulp = (2::rat) powi (int p - 1)"
    by (simp add: ulp_def power_int_diff [symmetric])
  also have "\<dots> = of_int (2 ^ q)" by (simp add: q power_int_def)
  finally have g: "2 powi e / ulp = of_int (2 ^ q)" .
  have "of_int (2 ^ q) \<le> x / ulp"
    unfolding g [symmetric] using b(1) ulp by (simp add: divide_right_mono)
  then have "2 ^ q \<le> round_half_even (x / ulp)"
    using round_half_even_mono [of "of_int (2 ^ q)" "x / ulp"]
    by (simp only: round_half_even_of_int)
  then have "(of_int (2 ^ q) :: rat) \<le> of_int (round_half_even (x / ulp))"
    by (simp only: of_int_le_iff)
  then have r: "of_int (2 ^ q) * ulp \<le> of_int (round_half_even (x / ulp)) * ulp"
    using ulp by (intro mult_right_mono) auto
  have f: "fl p x = of_int (round_half_even (x / ulp)) * ulp"
    using nz by (simp add: fl_def Let_def ulp_def e_def)
  have "(2::rat) powi k \<le> 2 powi e" using ke by (intro power_int_increasing) auto
  also have "2 powi e = of_int (2 ^ q) * ulp"
    using g ulp by (simp add: field_simps)
  also note r
  finally show ?thesis unfolding f .
qed

lemma fl_mono_pos:
  assumes "0 < x" "x \<le> y" "1 \<le> p"
  shows "fl p x \<le> fl p y"
proof -
  have nz: "x \<noteq> 0" "y \<noteq> 0" using assms by auto
  have ypos: "0 < y" using assms by simp
  have le: "float_exponent x \<le> float_exponent y" using float_exponent_mono [OF assms(1,2)] .
  show ?thesis
  proof (cases "float_exponent x = float_exponent y")
    case True
    define ulp :: rat where "ulp = 2 powi (float_exponent y - int p + 1)"
    have ulp: "0 < ulp" by (simp add: ulp_def)
    have "x / ulp \<le> y / ulp" using assms(2) ulp by (simp add: divide_right_mono)
    then have "round_half_even (x / ulp) \<le> round_half_even (y / ulp)"
      by (rule round_half_even_mono)
    then have "(of_int (round_half_even (x / ulp)) :: rat) \<le> of_int (round_half_even (y / ulp))"
      by (simp only: of_int_le_iff)
    then have "of_int (round_half_even (x / ulp)) * ulp \<le> of_int (round_half_even (y / ulp)) * ulp"
      using ulp by (intro mult_right_mono) auto
    then show ?thesis using nz True by (simp add: fl_def Let_def ulp_def)
  next
    case False
    then have lt: "float_exponent x + 1 \<le> float_exponent y" using le by linarith
    have "x \<le> 2 powi (float_exponent x + 1)"
      using float_exponent_bounds(2) [OF nz(1)] assms(1) by simp
    then have "fl p x \<le> 2 powi (float_exponent x + 1)"
      using fl_le_pow [OF assms(1) _ assms(3)] by blast
    also have "\<dots> \<le> 2 powi float_exponent y" using lt by (intro power_int_increasing) auto
    also have "\<dots> \<le> fl p y"
      using fl_ge_pow [OF _ assms(3), of "float_exponent y" y]
        float_exponent_bounds(1) [OF nz(2)] ypos by simp
    finally show ?thesis .
  qed
qed

lemma fl_mono:
  assumes "x \<le> y" "1 \<le> p"
  shows "fl p x \<le> fl p y"
proof -
  consider "0 < x" | "x \<le> 0" "0 \<le> y" | "y < 0" by linarith
  then show ?thesis
  proof cases
    case 1 then show ?thesis using fl_mono_pos assms by blast
  next
    case 2
    have "fl p x \<le> 0" using fl_nonneg [of "- x" p] 2(1) by (simp add: fl_minus)
    moreover have "0 \<le> fl p y" using fl_nonneg 2(2) by blast
    ultimately show ?thesis by linarith
  next
    case 3
    have "fl p (- y) \<le> fl p (- x)" using fl_mono_pos [of "- y" "- x" p] 3 assms by simp
    then show ?thesis by (simp add: fl_minus)
  qed
qed

lemma fl_scale:
  "fl p (x * 2 powi k) = fl p x * 2 powi k"
proof (cases "x = 0")
  case True then show ?thesis by simp
next
  case False
  have pos: "0 < (2::rat) powi k" by simp
  have nz: "x * 2 powi k \<noteq> 0" using False pos by simp
  have "2 powi (float_exponent x + k) \<le> \<bar>x * 2 powi k\<bar>"
    using float_exponent_bounds(1) [OF False] pos
    by (simp add: power_int_add abs_mult mult_right_mono)
  moreover have "\<bar>x * 2 powi k\<bar> < 2 powi (float_exponent x + k + 1)"
  proof -
    have "\<bar>x\<bar> * 2 powi k < 2 powi (float_exponent x + 1) * 2 powi k"
      using float_exponent_bounds(2) [OF False] pos by (simp add: mult_strict_right_mono)
    also have "\<dots> = 2 powi (float_exponent x + k + 1)"
      by (simp add: power_int_add [symmetric] algebra_simps)
    finally show ?thesis using pos by (simp add: abs_mult)
  qed
  ultimately have e: "float_exponent (x * 2 powi k) = float_exponent x + k"
    by (rule float_exponent_unique)
  have u: "(2::rat) powi (float_exponent x + k - int p + 1)
            = 2 powi (float_exponent x - int p + 1) * 2 powi k"
    by (simp add: power_int_add [symmetric] algebra_simps)
  show ?thesis
    using False nz pos by (simp add: fl_def Let_def e u)
qed

section \<open>Arithmetic of the model\<close>


lemma py_int_mono: "x \<le> y \<Longrightarrow> py_int x \<le> py_int y"
proof -
  assume xy: "x \<le> y"
  consider "0 \<le> x" | "x < 0" "0 \<le> y" | "y < 0" by linarith
  then show ?thesis
  proof cases
    case 1
    then show ?thesis using xy by (simp add: py_int_def floor_mono)
  next
    case 2
    have "\<lceil>x\<rceil> \<le> 0" using 2(1) by (simp add: ceiling_le_zero)
    moreover have "0 \<le> \<lfloor>y\<rfloor>" using 2(2) by simp
    ultimately have "\<lceil>x\<rceil> \<le> \<lfloor>y\<rfloor>" by linarith
    then show ?thesis using 2 by (simp add: py_int_def)
  next
    case 3
    then show ?thesis using xy by (simp add: py_int_def ceiling_mono)
  qed
qed



text \<open>
  Two readings of the tick counter taken less than half a period apart differ by the
  time that passed between them, also across a wrap of the counter.
\<close>

lemma ticks_diff_exact:
  assumes "- (2 ^ 29) \<le> a - b - d" and "a - b - d < 2 ^ 29"
  shows "ticks_diff (ticks_ms a) (ticks_ms b + d) = a - b - d"
proof -
  let ?P = "2 ^ 30 :: int"
  let ?c = "2 ^ 29 - d :: int"
  have "(a mod ?P - (b mod ?P + d) + 2 ^ 29) = (a mod ?P - b mod ?P) + ?c"
    by simp
  moreover have "((a mod ?P - b mod ?P) + ?c) mod ?P = ((a mod ?P - b mod ?P) mod ?P + ?c) mod ?P"
    by (rule mod_add_left_eq [symmetric])
  moreover have "(a mod ?P - b mod ?P) mod ?P = (a - b) mod ?P"
    by (rule mod_diff_eq)
  moreover have "((a - b) mod ?P + ?c) mod ?P = ((a - b) + ?c) mod ?P"
    by (rule mod_add_left_eq)
  moreover have "(a - b) + ?c = a - b - d + 2 ^ 29"
    by simp
  moreover have "(a - b - d + 2 ^ 29) mod ?P = a - b - d + 2 ^ 29"
    using assms by (intro mod_pos_pos_trivial) simp_all
  ultimately have "(a mod ?P - (b mod ?P + d) + 2 ^ 29) mod ?P = a - b - d + 2 ^ 29"
    by (simp only:)
  then show ?thesis
    by (simp add: ticks_diff_def ticks_ms_def TICKS_PERIOD_def)
qed

lemma clock_lower_bound:
  fixes \<tau> :: "nat \<Rightarrow> int"
  assumes "\<And>k. \<tau> k + d \<le> \<tau> (Suc k)"
  shows "\<tau> 0 + d * int k \<le> \<tau> k"
proof (induction k)
  case 0
  show ?case by simp
next
  case (Suc k)
  have "\<tau> 0 + d * int (Suc k) = (\<tau> 0 + d * int k) + d" by (simp add: algebra_simps)
  also have "\<dots> \<le> \<tau> k + d" using Suc by simp
  also have "\<dots> \<le> \<tau> (Suc k)" by (rule assms)
  finally show ?case .
qed

text \<open>
  A loop that tests \<open>ticks_diff(ticks_ms(), deadline) < 0\<close> with
  \<open>deadline = ticks_ms() + D\<close>, and whose tests are at least \<open>d\<close> and at most half a
  period apart, sees the test fail: at the first test made \<open>D\<close> or more after the
  deadline was computed, and not before.
\<close>

lemma deadline_reached:
  fixes \<tau> :: "nat \<Rightarrow> int"
  assumes start: "t0 \<le> \<tau> 0" "\<tau> 0 - t0 \<le> 2 ^ 29"
    and step: "\<And>k. \<tau> k + d \<le> \<tau> (Suc k)" "\<And>k. \<tau> (Suc k) - \<tau> k \<le> 2 ^ 29"
    and d: "0 < d" and D: "0 < D" "D \<le> d * int n" "D \<le> 2 ^ 29"
  shows "\<exists>N\<le>n. (\<forall>k<N. ticks_diff (ticks_ms (\<tau> k)) (ticks_ms t0 + D) < 0)
               \<and> \<not> ticks_diff (ticks_ms (\<tau> N)) (ticks_ms t0 + D) < 0
               \<and> t0 + D \<le> \<tau> N"
proof -
  have mono: "\<tau> i \<le> \<tau> j" if "i \<le> j" for i j
    using that
  proof (induction j)
    case 0
    then show ?case by simp
  next
    case (Suc j)
    have "\<tau> j \<le> \<tau> (Suc j)" using step(1) [of j] d by linarith
    with Suc show ?case by (cases "i = Suc j") auto
  qed
  have "t0 + D \<le> \<tau> n"
    using clock_lower_bound [of \<tau> d n, OF step(1)] start(1) D(2) by linarith
  then have ex: "\<exists>k. t0 + D \<le> \<tau> k" ..
  define N where "N = (LEAST k. t0 + D \<le> \<tau> k)"
  have N: "t0 + D \<le> \<tau> N" unfolding N_def using ex by (rule LeastI_ex)
  have before: "\<tau> k < t0 + D" if "k < N" for k
    using not_less_Least [of k "\<lambda>k. t0 + D \<le> \<tau> k"] that unfolding N_def by auto
  have Nn: "N \<le> n" unfolding N_def using \<open>t0 + D \<le> \<tau> n\<close> by (rule Least_le)
  have upper: "\<tau> N - t0 - D < 2 ^ 29"
  proof (cases N)
    case 0
    then show ?thesis using start(2) D(1) by simp
  next
    case (Suc m)
    then have "\<tau> m < t0 + D" using before [of m] by simp
    moreover have "\<tau> N - \<tau> m \<le> 2 ^ 29" using step(2) [of m] Suc by simp
    ultimately show ?thesis by linarith
  qed
  have atN: "ticks_diff (ticks_ms (\<tau> N)) (ticks_ms t0 + D) = \<tau> N - t0 - D"
    using N upper by (intro ticks_diff_exact) simp_all
  have early: "ticks_diff (ticks_ms (\<tau> k)) (ticks_ms t0 + D) < 0" if "k < N" for k
  proof -
    have lo: "t0 \<le> \<tau> k" using mono [of 0 k] start(1) by simp
    have "ticks_diff (ticks_ms (\<tau> k)) (ticks_ms t0 + D) = \<tau> k - t0 - D"
      using lo before [OF that] D(3) by (intro ticks_diff_exact) simp_all
    then show ?thesis using before [OF that] by simp
  qed
  show ?thesis
    using Nn early atN N by (intro exI [of _ N]) auto
qed

section \<open>The pedal mapping\<close>







section \<open>The PID update with no time passed\<close>

text \<open>
  Claim C8. When no time has passed since the previous call (\<open>dt = 0\<close>),
  \<open>PID.update\<close> returns the stored previous error, raises nothing, and leaves the
  controller as it was; so a second call with the same arguments and \<open>dt = 0\<close>
  returns the same value.
\<close>

theorem pid_update_zero_dt:
  "ticks_diff (ticks_ms t) (last_time c) = 0 \<longrightarrow>
     pid_update prec t setpoint current_value c = Inr (prev_error c, c)
     \<and> (\<forall>v c'. pid_update prec t setpoint current_value c = Inr (v, c') \<longrightarrow>
           pid_update prec t setpoint current_value c' = Inr (v, c') \<and> c' = c)"
  by (simp add: pid_update_def Let_def fdiv_def)

text \<open>The theorem for a controller that was reset in the same millisecond.\<close>

theorem pid_update_zero_dt_witness:
  "ticks_diff (ticks_ms 1000) (last_time (pid_reset 1000 (PID 0 (1 / 2) (1 / 100) (1 / 20)))) = 0
   \<and> pid_update 24 1000 300 280 (pid_reset 1000 (PID 0 (1 / 2) (1 / 100) (1 / 20)))
       = Inr (0, pid_reset 1000 (PID 0 (1 / 2) (1 / 100) (1 / 20)))"
  using pid_update_zero_dt [where t = 1000 and prec = 24 and setpoint = 300
          and current_value = 280 and c = "pid_reset 1000 (PID 0 (1 / 2) (1 / 100) (1 / 20))"]
  by (simp add: pid_reset_def PID_def ticks_diff_def ticks_ms_def TICKS_PERIOD_def)

section \<open>Float operations on small integers, and accumulated error\<close>

lemma pow24_le: "24 \<le> prec \<Longrightarrow> (16777216::int) \<le> 2 ^ prec"
proof -
  assume "24 \<le> prec"
  then have "(2::int) ^ 24 \<le> 2 ^ prec" by (intro power_increasing) auto
  then show ?thesis by simp
qed

lemma fl_int24:
  assumes "24 \<le> prec" "\<bar>n\<bar> \<le> 16777216"
  shows "fl prec (of_int n) = of_int n"
  using fl_of_int [of n prec] pow24_le [OF assms(1)] assms by simp

lemma fl_numeral24:
  assumes "24 \<le> prec" "(numeral k :: int) \<le> 16777216"
  shows "fl prec (numeral k) = numeral k"
  using fl_int24 [OF assms(1), of "numeral k"] assms(2) by simp

lemma fl_one24: "24 \<le> prec \<Longrightarrow> fl prec 1 = 1"
  using fl_int24 [of prec 1] by simp

lemma u24:
  assumes "24 \<le> prec"
  shows "(1::rat) / 2 ^ prec \<le> 1 / 2 ^ 24"
proof -
  have "(2::rat) ^ 24 \<le> 2 ^ prec" using assms by (intro power_increasing) auto
  then show ?thesis by (simp add: field_simps)
qed

lemma fl_pos:
  assumes "0 < x" "1 \<le> prec"
  shows "0 < fl prec x"
proof -
  have "x \<noteq> 0" using assms by simp
  from float_exponent_bounds(1) [OF this] have "2 powi float_exponent x \<le> x" using assms by simp
  from fl_ge_pow [OF this assms(2)] have "2 powi float_exponent x \<le> fl prec x" .
  moreover have "(0::rat) < 2 powi float_exponent x" by simp
  ultimately show ?thesis by linarith
qed

text \<open>The relative error of a chain of four roundings and one rounded divisor.\<close>

lemma rel_upper:
  assumes "24 \<le> prec"
  shows "(1 + 1 / 2 ^ prec) ^ 4 / (1 - 1 / 2 ^ prec) \<le> (1 + 1 / 2 ^ 20 :: rat)"
proof -
  define u :: rat where "u = 1 / 2 ^ prec"
  have u: "0 < u" "u \<le> 1 / 2 ^ 24" using u24 [OF assms] by (simp_all add: u_def)
  have "(1 + u) ^ 4 \<le> (1 + 1 / 2 ^ 24) ^ 4" using u by (intro power_mono) auto
  moreover have "1 - 1 / 2 ^ 24 \<le> 1 - u" using u by simp
  moreover have "(0::rat) < 1 - 1 / 2 ^ 24" by simp
  ultimately have "(1 + u) ^ 4 / (1 - u) \<le> (1 + 1 / 2 ^ 24) ^ 4 / (1 - 1 / 2 ^ 24)"
    by (intro frac_le) auto
  also have "\<dots> \<le> 1 + 1 / 2 ^ 20" by (simp add: power4_eq_xxxx)
  finally show ?thesis by (simp add: u_def)
qed

lemma rel_lower:
  assumes "24 \<le> prec"
  shows "(1 - 1 / 2 ^ 20 :: rat) \<le> (1 - 1 / 2 ^ prec) ^ 4 / (1 + 1 / 2 ^ prec)"
proof -
  define u :: rat where "u = 1 / 2 ^ prec"
  have u: "0 < u" "u \<le> 1 / 2 ^ 24" using u24 [OF assms] by (simp_all add: u_def)
  have "(1 - 1 / 2 ^ 24) ^ 4 \<le> (1 - u) ^ 4" using u by (intro power_mono) auto
  moreover have "1 + u \<le> 1 + 1 / 2 ^ 24" using u by simp
  moreover have "(0::rat) < 1 + u" using u by simp
  moreover have "(0::rat) \<le> (1 - 1 / 2 ^ 24) ^ 4" by simp
  ultimately have "(1 - 1 / 2 ^ 24) ^ 4 / (1 + 1 / 2 ^ 24) \<le> (1 - u) ^ 4 / (1 + u)"
    by (intro frac_le) auto
  moreover have "(1 - 1 / 2 ^ 20 :: rat) \<le> (1 - 1 / 2 ^ 24) ^ 4 / (1 + 1 / 2 ^ 24)"
    by (simp add: power4_eq_xxxx)
  ultimately show ?thesis by (simp add: u_def)
qed

text \<open>The float value of \<open>(pulses / ms) * 1000 * 60\<close> against the exact one.\<close>

lemma rpm_val_bounds:
  assumes p: "24 \<le> prec" and n: "0 \<le> n" and d: "0 < d"
  defines "v \<equiv> fmul prec (fmul prec (fdiv prec (of_int n) (of_int d)) 1000) 60"
  defines "E \<equiv> (of_int n / of_int d * 1000 * 60 :: rat)"
  shows "0 \<le> v" and "v \<le> E * (1 + 1 / 2 ^ 20)" and "E * (1 - 1 / 2 ^ 20) \<le> v"
proof -
  define u :: rat where "u = 1 / 2 ^ prec"
  have u: "0 < u" "u \<le> 1 / 2 ^ 24" using u24 [OF p] by (simp_all add: u_def)
  have u1: "0 < 1 - u" "0 < 1 + u" using u by simp_all
  have p1: "1 \<le> prec" using p by simp
  define a where "a = fl prec (of_int n)"
  define b where "b = fl prec (of_int d)"
  define q where "q = fl prec (a / b)"
  define r where "r = fl prec (q * 1000)"
  have a: "0 \<le> a" "of_int n * (1 - u) \<le> a" "a \<le> of_int n * (1 + u)"
    using n fl_nonneg [of "of_int n" prec] fl_lower [of "of_int n" prec] fl_upper [of "of_int n" prec]
    by (simp_all add: a_def u_def)
  have dpos: "(0::rat) < of_int d" using d by simp
  have b: "0 < b" "of_int d * (1 - u) \<le> b" "b \<le> of_int d * (1 + u)"
    using dpos fl_pos [OF dpos p1] fl_lower [of "of_int d" prec] fl_upper [of "of_int d" prec]
    by (simp_all add: b_def u_def)
  have ab0: "0 \<le> a / b" using a(1) b(1) by simp
  have ab_up: "a / b \<le> of_int n / of_int d * ((1 + u) / (1 - u))"
  proof -
    have "a / b \<le> (of_int n * (1 + u)) / (of_int d * (1 - u))"
      using a b dpos u1 n by (intro frac_le) (auto intro!: mult_pos_pos)
    then show ?thesis by simp
  qed
  have ab_lo: "of_int n / of_int d * ((1 - u) / (1 + u)) \<le> a / b"
  proof -
    have "(of_int n * (1 - u)) / (of_int d * (1 + u)) \<le> a / b"
      using a b dpos u1 n by (intro frac_le) (auto intro!: mult_nonneg_nonneg less_imp_le)
    then show ?thesis by simp
  qed
  have q: "0 \<le> q" "(a / b) * (1 - u) \<le> q" "q \<le> (a / b) * (1 + u)"
    using ab0 fl_nonneg [of "a / b" prec] fl_lower [of "a / b" prec] fl_upper [of "a / b" prec]
    by (simp_all add: q_def u_def)
  have q1000: "0 \<le> q * 1000" using q(1) by simp
  have r: "0 \<le> r" "q * 1000 * (1 - u) \<le> r" "r \<le> q * 1000 * (1 + u)"
    using q1000 fl_nonneg [of "q * 1000" prec] fl_lower [of "q * 1000" prec]
      fl_upper [of "q * 1000" prec]
    by (simp_all add: r_def u_def)
  have r60: "0 \<le> r * 60" using r(1) by simp
  have v: "v = fl prec (r * 60)"
    by (simp add: v_def fmul_def fdiv_def fl_idem [OF p1] fl_numeral24 [OF p]
          a_def b_def q_def r_def)
  have vb: "0 \<le> v" "r * 60 * (1 - u) \<le> v" "v \<le> r * 60 * (1 + u)"
    using r60 fl_nonneg [of "r * 60" prec] fl_lower [of "r * 60" prec] fl_upper [of "r * 60" prec]
    by (simp_all add: v u_def)
  show "0 \<le> v" by (rule vb(1))
  have E0: "(0::rat) \<le> of_int n / of_int d" using n dpos by simp
  have "v \<le> r * 60 * (1 + u)" by (rule vb(3))
  also have "\<dots> \<le> (q * 1000 * (1 + u)) * 60 * (1 + u)"
    using r(3) u1 by (intro mult_right_mono) auto
  also have "\<dots> \<le> ((a / b) * (1 + u) * 1000 * (1 + u)) * 60 * (1 + u)"
    using q(3) u1 by (intro mult_right_mono) auto
  also have "\<dots> \<le> ((of_int n / of_int d * ((1 + u) / (1 - u))) * (1 + u) * 1000 * (1 + u)) * 60 * (1 + u)"
    using ab_up u1 by (intro mult_right_mono) auto
  also have "\<dots> = E * ((1 + u) ^ 4 / (1 - u))"
    by (simp add: E_def power4_eq_xxxx)
  also have "\<dots> \<le> E * (1 + 1 / 2 ^ 20)"
    using rel_upper [OF p] E0 unfolding u_def E_def
    by (intro mult_left_mono) auto
  finally show "v \<le> E * (1 + 1 / 2 ^ 20)" .
  have "E * (1 - 1 / 2 ^ 20) \<le> E * ((1 - u) ^ 4 / (1 + u))"
    using rel_lower [OF p] E0 unfolding u_def E_def
    by (intro mult_left_mono) auto
  also have "\<dots> = ((of_int n / of_int d * ((1 - u) / (1 + u))) * (1 - u) * 1000 * (1 - u)) * 60 * (1 - u)"
    by (simp add: E_def power4_eq_xxxx)
  also have "\<dots> \<le> ((a / b) * (1 - u) * 1000 * (1 - u)) * 60 * (1 - u)"
    using ab_lo u1 by (intro mult_right_mono) auto
  also have "\<dots> \<le> (q * 1000 * (1 - u)) * 60 * (1 - u)"
    using q(2) u1 by (intro mult_right_mono) auto
  also have "\<dots> \<le> r * 60 * (1 - u)"
    using r(2) u1 by (intro mult_right_mono) auto
  also have "\<dots> \<le> v" by (rule vb(2))
  finally show "E * (1 - 1 / 2 ^ 20) \<le> v" .
qed

section \<open>The RPM computation\<close>

lemma rpm_30_1000_single:
  "py_int (fmul 24 (fmul 24 (fdiv 24 (of_int 30) (of_int 1000)) 1000) (fdiv 24 60 RPM_POLES)) = 1800"
  by code_simp

lemma rpm_30_1000_double:
  "py_int (fmul 53 (fmul 53 (fdiv 53 (of_int 30) (of_int 1000)) 1000) (fdiv 53 60 RPM_POLES)) = 1800"
  by code_simp

lemma rpm_11_120_double:
  "py_int (fmul 53 (fmul 53 (fdiv 53 (of_int 11) (of_int 120)) 1000) (fdiv 53 60 RPM_POLES)) = 5499"
  by code_simp

lemma py_int_floor_bounds:
  assumes "0 \<le> x"
  shows "x - 1 < of_int (py_int x)" "of_int (py_int x) \<le> x"
  using assms by (simp_all add: py_int_def) linarith

text \<open>
  Claim C9. \<open>calculate_rpm\<close> returns \<open>int()\<close> of the float value of
  \<open>(pulse_count / elapsed_ms) * 1000 * (60 / RPM_POLES)\<close>, stores it as \<open>current_rpm\<close>
  and resets the pulse counter, whenever the time since its previous call is positive.
  With at least 24 significand bits and a non-negative counter, the result is at most
  the exact value of that expression times \<open>1 + 1 / 2 ^ 20\<close>, and more than that value
  times \<open>1 - 1 / 2 ^ 20\<close> less one. With one pulse per revolution, 30 pulses counted over
  1000 ms give 1800, in single and in double precision. When no time has passed since
  the previous call (or the tick difference is negative) it returns 0, raises nothing
  and keeps the counter.
\<close>

theorem calculate_rpm_formula:
  "(0 < ticks_diff (ticks_ms t) (last_rpm_calc_time s) \<longrightarrow>
      (\<exists>rpm. calculate_rpm prec t s
                = Inr (rpm, s\<lparr>last_rpm_calc_time := ticks_ms t, current_rpm := rpm,
                               pulse_count := 0\<rparr>)
         \<and> rpm = py_int (fmul prec
                    (fmul prec
                       (fdiv prec (of_int (pulse_count s))
                          (of_int (ticks_diff (ticks_ms t) (last_rpm_calc_time s))))
                       1000)
                    (fdiv prec 60 RPM_POLES))
         \<and> (24 \<le> prec \<and> 0 \<le> pulse_count s \<longrightarrow>
              of_int (pulse_count s) / of_int (ticks_diff (ticks_ms t) (last_rpm_calc_time s))
                  * 1000 * (60 / RPM_POLES) * (1 - 1 / 2 ^ 20) - 1 < of_int rpm
              \<and> of_int rpm
                  \<le> of_int (pulse_count s) / of_int (ticks_diff (ticks_ms t) (last_rpm_calc_time s))
                      * 1000 * (60 / RPM_POLES) * (1 + 1 / 2 ^ 20))))
   \<and> ((prec = 24 \<or> prec = 53) \<and> pulse_count s = 30
        \<and> ticks_diff (ticks_ms t) (last_rpm_calc_time s) = 1000 \<longrightarrow>
      calculate_rpm prec t s
        = Inr (1800, s\<lparr>last_rpm_calc_time := ticks_ms t, current_rpm := 1800,
                        pulse_count := 0\<rparr>))
   \<and> (ticks_diff (ticks_ms t) (last_rpm_calc_time s) \<le> 0 \<longrightarrow>
      calculate_rpm prec t s = Inr (0, s\<lparr>last_rpm_calc_time := ticks_ms t, current_rpm := 0\<rparr>))"
proof -
  let ?d = "ticks_diff (ticks_ms t) (last_rpm_calc_time s)"
  let ?v = "fmul prec (fmul prec (fdiv prec (of_int (pulse_count s)) (of_int ?d)) 1000)
              (fdiv prec 60 RPM_POLES)"
  have shape: "0 < ?d \<Longrightarrow> calculate_rpm prec t s
                = Inr (py_int ?v, s\<lparr>last_rpm_calc_time := ticks_ms t, current_rpm := py_int ?v,
                               pulse_count := 0\<rparr>)"
    by (simp add: calculate_rpm_def Let_def py_truediv_def RPM_POLES_def)
  have acc: "of_int (pulse_count s) / of_int ?d * 1000 * (60 / RPM_POLES) * (1 - 1 / 2 ^ 20) - 1
               < of_int (py_int ?v)
             \<and> of_int (py_int ?v)
                 \<le> of_int (pulse_count s) / of_int ?d * 1000 * (60 / RPM_POLES) * (1 + 1 / 2 ^ 20)"
    if d: "0 < ?d" and p: "24 \<le> prec" and n: "0 \<le> pulse_count s"
  proof -
    have p1: "1 \<le> prec" using p by simp
    have pp: "fdiv prec 60 RPM_POLES = 60"
      by (simp add: fdiv_def RPM_POLES_def fl_numeral24 [OF p] fl_one24 [OF p])
    note b = rpm_val_bounds [OF p n d]
    have v0: "0 \<le> ?v" using b(1) by (simp add: pp)
    have "of_int (py_int ?v) \<le> ?v" using py_int_floor_bounds(2) [OF v0] .
    also have "?v \<le> of_int (pulse_count s) / of_int ?d * 1000 * 60 * (1 + 1 / 2 ^ 20)"
      using b(2) by (simp only: pp)
    finally have up: "of_int (py_int ?v)
        \<le> of_int (pulse_count s) / of_int ?d * 1000 * (60 / RPM_POLES) * (1 + 1 / 2 ^ 20)"
      by (simp add: RPM_POLES_def)
    have "of_int (pulse_count s) / of_int ?d * 1000 * 60 * (1 - 1 / 2 ^ 20) - 1 \<le> ?v - 1"
      using b(3) by (simp add: pp)
    also have "\<dots> < of_int (py_int ?v)" using py_int_floor_bounds(1) [OF v0] .
    finally have lo: "of_int (pulse_count s) / of_int ?d * 1000 * (60 / RPM_POLES) * (1 - 1 / 2 ^ 20) - 1
         < of_int (py_int ?v)"
      by (simp add: RPM_POLES_def)
    show ?thesis using lo up by blast
  qed
  have ex: "calculate_rpm prec t s
        = Inr (1800, s\<lparr>last_rpm_calc_time := ticks_ms t, current_rpm := 1800, pulse_count := 0\<rparr>)"
    if "prec = 24 \<or> prec = 53" "pulse_count s = 30" "?d = 1000"
    using that shape rpm_30_1000_single rpm_30_1000_double by auto
  have zero: "?d \<le> 0 \<Longrightarrow>
      calculate_rpm prec t s = Inr (0, s\<lparr>last_rpm_calc_time := ticks_ms t, current_rpm := 0\<rparr>)"
    by (simp add: calculate_rpm_def Let_def)
  show ?thesis using shape acc ex zero by blast
qed

text \<open>
  The theorem one second after the sensors were set up at time 0 with 30 pulses
  counted, 120 ms after with 11 pulses counted in double precision (the exact value is
  5500, the float value just below it, the result 5499), and with no time passed.
\<close>

theorem calculate_rpm_formula_witness:
  "calculate_rpm 24 1000 (sensor_globals\<lparr>pulse_count := 30\<rparr>)
     = Inr (1800, sensor_globals\<lparr>pulse_count := 0, current_rpm := 1800,
                                 last_rpm_calc_time := 1000\<rparr>)
   \<and> calculate_rpm 53 120 (sensor_globals\<lparr>pulse_count := 11\<rparr>)
       = Inr (5499, sensor_globals\<lparr>pulse_count := 0, current_rpm := 5499,
                                   last_rpm_calc_time := 120\<rparr>)
   \<and> (11 / 120 * 1000 * 60 * (1 - 1 / 2 ^ 20) - 1 < (5499::rat))
   \<and> ((5499::rat) \<le> 11 / 120 * 1000 * 60 * (1 + 1 / 2 ^ 20))
   \<and> calculate_rpm 24 0 (sensor_globals\<lparr>pulse_count := 30\<rparr>)
       = Inr (0, sensor_globals\<lparr>pulse_count := 30\<rparr>)"
proof -
  let ?s30 = "sensor_globals\<lparr>pulse_count := 30\<rparr>"
  let ?s11 = "sensor_globals\<lparr>pulse_count := 11\<rparr>"
  have d1: "ticks_diff (ticks_ms 1000) (last_rpm_calc_time ?s30) = 1000"
    by (simp add: sensor_globals_def ticks_diff_def ticks_ms_def TICKS_PERIOD_def)
  have d2: "ticks_diff (ticks_ms 120) (last_rpm_calc_time ?s11) = 120"
    by (simp add: sensor_globals_def ticks_diff_def ticks_ms_def TICKS_PERIOD_def)
  have d3: "ticks_diff (ticks_ms 0) (last_rpm_calc_time ?s30) = 0"
    by (simp add: sensor_globals_def ticks_diff_def ticks_ms_def TICKS_PERIOD_def)
  have pc1: "pulse_count ?s30 = 30" by simp
  have a0: "calculate_rpm 24 1000 ?s30
     = Inr (1800, ?s30\<lparr>last_rpm_calc_time := ticks_ms 1000, current_rpm := 1800,
                         pulse_count := 0\<rparr>)"
    by (rule calculate_rpm_formula [where prec = 24 and t = 1000 and s = ?s30,
          THEN conjunct2, THEN conjunct1, rule_format,
          OF conjI [OF disjI1 [OF refl] conjI [OF pc1 d1]]])
  have a: "calculate_rpm 24 1000 ?s30
     = Inr (1800, sensor_globals\<lparr>pulse_count := 0, current_rpm := 1800,
                                 last_rpm_calc_time := 1000\<rparr>)"
    unfolding a0 by (simp add: sensor_globals_def ticks_ms_def TICKS_PERIOD_def)
  have d2': "0 < ticks_diff (ticks_ms 120) (last_rpm_calc_time ?s11)" unfolding d2 by simp
  have h2: "24 \<le> (53::nat) \<and> 0 \<le> pulse_count ?s11" by simp
  obtain rpm where b0: "calculate_rpm 53 120 ?s11
                = Inr (rpm, ?s11\<lparr>last_rpm_calc_time := ticks_ms 120, current_rpm := rpm,
                               pulse_count := 0\<rparr>)"
      and b1: "rpm = py_int (fmul 53
                    (fmul 53
                       (fdiv 53 (of_int (pulse_count ?s11))
                          (of_int (ticks_diff (ticks_ms 120) (last_rpm_calc_time ?s11))))
                       1000)
                    (fdiv 53 60 RPM_POLES))"
      and b2: "24 \<le> (53::nat) \<and> 0 \<le> pulse_count ?s11 \<longrightarrow>
              of_int (pulse_count ?s11) / of_int (ticks_diff (ticks_ms 120) (last_rpm_calc_time ?s11))
                  * 1000 * (60 / RPM_POLES) * (1 - 1 / 2 ^ 20) - 1 < of_int rpm
              \<and> of_int rpm
                  \<le> of_int (pulse_count ?s11) / of_int (ticks_diff (ticks_ms 120) (last_rpm_calc_time ?s11))
                      * 1000 * (60 / RPM_POLES) * (1 + 1 / 2 ^ 20)"
    using calculate_rpm_formula [where prec = 53 and t = 120 and s = ?s11,
          THEN conjunct1, rule_format, OF d2'] by blast
  have rpm: "rpm = 5499" using b1 rpm_11_120_double unfolding d2 by simp
  have b: "calculate_rpm 53 120 ?s11
       = Inr (5499, sensor_globals\<lparr>pulse_count := 0, current_rpm := 5499,
                                   last_rpm_calc_time := 120\<rparr>)
     \<and> (11 / 120 * 1000 * 60 * (1 - 1 / 2 ^ 20) - 1 < (5499::rat))
     \<and> ((5499::rat) \<le> 11 / 120 * 1000 * 60 * (1 + 1 / 2 ^ 20))"
    using b0 b2 [rule_format, OF h2] unfolding rpm d2
    by (simp add: sensor_globals_def ticks_ms_def TICKS_PERIOD_def RPM_POLES_def)
  have d3': "ticks_diff (ticks_ms 0) (last_rpm_calc_time ?s30) \<le> 0" unfolding d3 by simp
  have c0: "calculate_rpm 24 0 ?s30
     = Inr (0, ?s30\<lparr>last_rpm_calc_time := ticks_ms 0, current_rpm := 0\<rparr>)"
    by (rule calculate_rpm_formula [where prec = 24 and t = 0 and s = ?s30,
          THEN conjunct2, THEN conjunct2, rule_format, OF d3'])
  have c: "calculate_rpm 24 0 ?s30 = Inr (0, ?s30)"
    unfolding c0 by (simp add: sensor_globals_def ticks_ms_def TICKS_PERIOD_def)
  show ?thesis using a b c by blast
qed

section \<open>The firing delay\<close>

lemma fl_abs_error:
  assumes "\<bar>x\<bar> \<le> B"
  shows "\<bar>fl prec x - x\<bar> \<le> B / 2 ^ prec"
proof -
  have "\<bar>fl prec x - x\<bar> \<le> \<bar>x\<bar> / 2 ^ prec" by (rule fl_error)
  also have "\<dots> \<le> B / 2 ^ prec" using assms by (simp add: divide_right_mono)
  finally show ?thesis .
qed

lemma fl_between:
  assumes "of_int a \<le> x" "x \<le> of_int b" "24 \<le> prec" "\<bar>a\<bar> \<le> 16777216" "\<bar>b\<bar> \<le> 16777216"
  shows "of_int a \<le> fl prec x" "fl prec x \<le> of_int b"
proof -
  have p1: "1 \<le> prec" using assms(3) by simp
  show "of_int a \<le> fl prec x"
    using fl_mono [OF assms(1) p1] fl_int24 [OF assms(3,4)] by simp
  show "fl prec x \<le> of_int b"
    using fl_mono [OF assms(2) p1] fl_int24 [OF assms(3,5)] by simp
qed

text \<open>The float value of the linear map of \<open>set_motor_power\<close>.\<close>

lemma calculated_delay_facts:
  assumes p: "24 \<le> prec" and lo: "5 < pc" and hi: "pc \<le> 100"
  shows "500 \<le> fadd prec 500 (fmul prec 9300 (fdiv prec (fsub prec 100 pc) 100))"
    and "fadd prec 500 (fmul prec 9300 (fdiv prec (fsub prec 100 pc) 100)) \<le> 9800"
    and "\<bar>fadd prec 500 (fmul prec 9300 (fdiv prec (fsub prec 100 pc) 100)) - (500 + 9300 * ((100 - pc) / 100))\<bar> \<le> 1 / 100"
proof -
  define u :: rat where "u = 1 / 2 ^ prec"
  have u: "0 < u" "u \<le> 1 / 2 ^ 24" using u24 [OF p] by (simp_all add: u_def)
  have p1: "1 \<le> prec" using p by simp
  define x1 where "x1 = fl prec pc"
  define s where "s = fl prec (100 - x1)"
  define q where "q = fl prec (s / 100)"
  define m where "m = fl prec (9300 * q)"
  define c where "c = fl prec (500 + m)"
  have c_eq: "fadd prec 500 (fmul prec 9300 (fdiv prec (fsub prec 100 pc) 100)) = c"
    by (simp add: fadd_def fmul_def fdiv_def fsub_def
          fl_idem [OF p1] fl_numeral24 [OF p] x1_def s_def q_def m_def c_def)
  have x1: "0 \<le> x1" "x1 \<le> 100"
    using fl_between [of 0 pc 100 prec] lo hi p by (simp_all add: x1_def)
  have x1e: "\<bar>x1 - pc\<bar> \<le> 100 * u"
    using fl_abs_error [of pc 100 prec] lo hi by (simp add: x1_def u_def)
  have s: "0 \<le> s" "s \<le> 100"
    using fl_between [of 0 "100 - x1" 100 prec] x1 p by (simp_all add: s_def)
  have se: "\<bar>s - (100 - x1)\<bar> \<le> 100 * u"
    using fl_abs_error [of "100 - x1" 100 prec] x1 by (simp add: s_def u_def)
  have q: "0 \<le> q" "q \<le> 1"
    using fl_between [of 0 "s / 100" 1 prec] s p by (simp_all add: q_def)
  have qe: "\<bar>q - s / 100\<bar> \<le> u"
    using fl_abs_error [of "s / 100" 1 prec] s by (simp add: q_def u_def)
  have m: "0 \<le> m" "m \<le> 9300"
    using fl_between [of 0 "9300 * q" 9300 prec] q p by (simp_all add: m_def)
  have me: "\<bar>m - 9300 * q\<bar> \<le> 9300 * u"
    using fl_abs_error [of "9300 * q" 9300 prec] q by (simp add: m_def u_def)
  have c: "500 \<le> c" "c \<le> 9800"
    using fl_between [of 500 "500 + m" 9800 prec] m p by (simp_all add: c_def)
  have ce: "\<bar>c - (500 + m)\<bar> \<le> 9800 * u"
    using fl_abs_error [of "500 + m" 9800 prec] m by (simp add: c_def u_def)
  show "500 \<le> fadd prec 500 (fmul prec 9300 (fdiv prec (fsub prec 100 pc) 100))" "fadd prec 500 (fmul prec 9300 (fdiv prec (fsub prec 100 pc) 100)) \<le> 9800"
    using c by (simp_all add: c_eq)
  have L: "500 + 9300 * ((100 - pc) / 100) = 9800 - 93 * pc" by simp
  have e1: "c - (9800 - 93 * pc) \<le> 47000 * u"
    using x1e se qe me ce by (simp only: abs_le_iff) (elim conjE, linarith)
  have e2: "(9800 - 93 * pc) - c \<le> 47000 * u"
    using x1e se qe me ce by (simp only: abs_le_iff) (elim conjE, linarith)
  have "\<bar>c - (500 + 9300 * ((100 - pc) / 100))\<bar> \<le> 47000 * u"
    unfolding L using e1 e2 by (simp only: abs_le_iff) simp
  also have "\<dots> \<le> 47000 * (1 / 2 ^ 24)" using u by (intro mult_left_mono) auto
  also have "\<dots> \<le> 1 / 100" by simp
  finally show "\<bar>fadd prec 500 (fmul prec 9300 (fdiv prec (fsub prec 100 pc) 100)) - (500 + 9300 * ((100 - pc) / 100))\<bar> \<le> 1 / 100"
    by (simp add: c_eq)
qed

lemma calculated_delay_antimono:
  assumes p: "1 \<le> prec" and le: "pc \<le> pc'"
  shows "fadd prec 500 (fmul prec 9300 (fdiv prec (fsub prec 100 pc') 100)) \<le> fadd prec 500 (fmul prec 9300 (fdiv prec (fsub prec 100 pc) 100))"
proof -
  have 1: "fl prec pc \<le> fl prec pc'" using fl_mono [OF le p] .
  have 2: "fsub prec 100 pc' \<le> fsub prec 100 pc"
    unfolding fsub_def using 1 by (intro fl_mono [OF _ p]) simp
  have 100: "0 \<le> fl prec 100" by (rule fl_nonneg) simp
  have 3: "fdiv prec (fsub prec 100 pc') 100 \<le> fdiv prec (fsub prec 100 pc) 100"
  proof -
    have "fl prec (fsub prec 100 pc') / fl prec 100 \<le> fl prec (fsub prec 100 pc) / fl prec 100"
      using fl_mono [OF 2 p] 100 by (rule divide_right_mono)
    then show ?thesis unfolding fdiv_def by (rule fl_mono [OF _ p])
  qed
  have 9300: "0 \<le> fl prec 9300" by (rule fl_nonneg) simp
  have 4: "fmul prec 9300 (fdiv prec (fsub prec 100 pc') 100)
            \<le> fmul prec 9300 (fdiv prec (fsub prec 100 pc) 100)"
  proof -
    have "fl prec 9300 * fl prec (fdiv prec (fsub prec 100 pc') 100)
            \<le> fl prec 9300 * fl prec (fdiv prec (fsub prec 100 pc) 100)"
      using fl_mono [OF 3 p] 9300 by (rule mult_left_mono)
    then show ?thesis unfolding fmul_def by (rule fl_mono [OF _ p])
  qed
  have "fl prec 500 + fl prec (fmul prec 9300 (fdiv prec (fsub prec 100 pc') 100))
          \<le> fl prec 500 + fl prec (fmul prec 9300 (fdiv prec (fsub prec 100 pc) 100))"
    using fl_mono [OF 4 p] by simp
  then show ?thesis
    unfolding fadd_def by (rule fl_mono [OF _ p])
qed


lemma delay_dead_zone:
  "p \<le> 5 \<Longrightarrow> p = max 0 (min 100 percent) \<Longrightarrow>
   target_triac_delay_us (set_motor_power prec percent m) = ac_half_cycle_time_us + 100"
  by (auto simp: set_motor_power_def Let_def gate_write_def max_def min_def
      split: option.splits if_splits)

lemma gate_dead_zone:
  "p \<le> 5 \<Longrightarrow> p = max 0 (min 100 percent) \<Longrightarrow>
   triac_gate_pin (set_motor_power prec percent m) = map_option (\<lambda>_. False) (triac_gate_pin m)"
  by (auto simp: set_motor_power_def Let_def gate_write_def max_def min_def
      split: option.splits if_splits)

lemma power_clamped:
  "motor_power_percent (set_motor_power prec percent m) = max 0 (min 100 percent)"
  by (auto simp: set_motor_power_def Let_def gate_write_def max_def min_def
      split: option.splits if_splits)

lemma delay_above_dead_zone:
  "5 < p \<Longrightarrow> p = max 0 (min 100 percent) \<Longrightarrow>
   target_triac_delay_us (set_motor_power prec percent m) =
     py_int (fadd prec 500 (fmul prec 9300 (fdiv prec (fsub prec 100 p) 100)))
   \<and> triac_gate_pin (set_motor_power prec percent m) = triac_gate_pin m"
  by (auto simp: set_motor_power_def Let_def max_def min_def ac_half_cycle_time_us_def
      split: if_splits)

lemma delay_range:
  assumes "24 \<le> prec" "5 < p" "p = max 0 (min 100 percent)"
  shows "500 \<le> target_triac_delay_us (set_motor_power prec percent m)"
    and "target_triac_delay_us (set_motor_power prec percent m) \<le> ac_half_cycle_time_us - 200"
    and "500 + 9300 * ((100 - p) / 100) - 1 - 1 / 100
           < of_int (target_triac_delay_us (set_motor_power prec percent m))"
    and "of_int (target_triac_delay_us (set_motor_power prec percent m))
           \<le> 500 + 9300 * ((100 - p) / 100) + 1 / 100"
proof -
  let ?c = "fadd prec 500 (fmul prec 9300 (fdiv prec (fsub prec 100 p) 100))"
  have p100: "p \<le> 100" using assms(3) by simp
  have eq: "target_triac_delay_us (set_motor_power prec percent m) = py_int ?c"
    using delay_above_dead_zone [OF assms(2,3)] by blast
  note f = calculated_delay_facts [OF assms(1,2) p100]
  have c0: "0 \<le> ?c" using f(1) by linarith
  have "py_int 500 \<le> py_int ?c" by (rule py_int_mono) (rule f(1))
  then show "500 \<le> target_triac_delay_us (set_motor_power prec percent m)"
    by (simp add: eq py_int_def)
  have "py_int ?c \<le> py_int 9800" by (rule py_int_mono) (rule f(2))
  then show "target_triac_delay_us (set_motor_power prec percent m) \<le> ac_half_cycle_time_us - 200"
    by (simp add: eq py_int_def ac_half_cycle_time_us_def)
  have e: "?c - (500 + 9300 * ((100 - p) / 100)) \<le> 1 / 100"
          "(500 + 9300 * ((100 - p) / 100)) - ?c \<le> 1 / 100"
    using f(3) by (simp_all only: abs_le_iff) simp_all
  show "500 + 9300 * ((100 - p) / 100) - 1 - 1 / 100
           < of_int (target_triac_delay_us (set_motor_power prec percent m))"
    unfolding eq using py_int_floor_bounds(1) [OF c0] e(2) by linarith
  show "of_int (target_triac_delay_us (set_motor_power prec percent m))
           \<le> 500 + 9300 * ((100 - p) / 100) + 1 / 100"
    unfolding eq using py_int_floor_bounds(2) [OF c0] e(1) by linarith
qed

lemma delay_antimono:
  assumes prec: "24 \<le> prec" and le: "percent \<le> percent'"
  shows "target_triac_delay_us (set_motor_power prec percent' m')
       \<le> target_triac_delay_us (set_motor_power prec percent m)"
proof -
  define p where "p = max 0 (min 100 percent)"
  define q where "q = max 0 (min 100 percent')"
  have pq: "p \<le> q" using le by (auto simp: p_def q_def max_def min_def)
  have p1: "1 \<le> prec" using prec by simp
  show ?thesis
  proof (cases "q \<le> 5")
    case True
    then have "p \<le> 5" using pq by simp
    then show ?thesis
      using True delay_dead_zone [OF _ p_def] delay_dead_zone [OF _ q_def] by simp
  next
    case False
    then have q5: "5 < q" by simp
    show ?thesis
    proof (cases "p \<le> 5")
      case True
      have "target_triac_delay_us (set_motor_power prec percent' m') \<le> ac_half_cycle_time_us - 200"
        by (rule delay_range(2) [OF prec q5 q_def])
      then show ?thesis using delay_dead_zone [OF True p_def] by simp
    next
      case False
      then have p5: "5 < p" by simp
      have "fadd prec 500 (fmul prec 9300 (fdiv prec (fsub prec 100 q) 100))
            \<le> fadd prec 500 (fmul prec 9300 (fdiv prec (fsub prec 100 p) 100))"
        by (rule calculated_delay_antimono [OF p1 pq])
      then show ?thesis
        using delay_above_dead_zone [OF p5 p_def] delay_above_dead_zone [OF q5 q_def]
        by (simp add: py_int_mono)
    qed
  qed
qed

text \<open>
  Claim C6, as the code has it. \<open>set_motor_power\<close> clamps the requested percentage to
  \<open>[0, 100]\<close>. When the clamped value is at most 5, the target delay is the off value
  \<open>ac_half_cycle_time_us + 100\<close>, beyond the half cycle, and the gate is driven low.
  Above 5 the gate is left alone and the target delay is \<open>int()\<close> of the float value of
  the linear map \<open>500 + (ac_half_cycle_time_us - 200 - 500) * (100 - percent) / 100\<close>:
  with at least 24 significand bits it lies in \<open>[500, ac_half_cycle_time_us - 200]\<close>, is
  at most the exact value of the map plus 0.01 and more than that value less 1.01. The
  delay never increases when the percentage increases.
\<close>

theorem set_motor_power_delay:
  "motor_power_percent (set_motor_power prec percent m) = max 0 (min 100 percent)
   \<and> (max 0 (min 100 percent) \<le> 5 \<longrightarrow>
        target_triac_delay_us (set_motor_power prec percent m) = ac_half_cycle_time_us + 100
        \<and> ac_half_cycle_time_us < target_triac_delay_us (set_motor_power prec percent m)
        \<and> triac_gate_pin (set_motor_power prec percent m)
            = map_option (\<lambda>_. False) (triac_gate_pin m))
   \<and> (5 < max 0 (min 100 percent) \<longrightarrow>
        target_triac_delay_us (set_motor_power prec percent m)
          = py_int (fadd prec 500
                      (fmul prec 9300
                         (fdiv prec (fsub prec 100 (max 0 (min 100 percent))) 100)))
        \<and> triac_gate_pin (set_motor_power prec percent m) = triac_gate_pin m)
   \<and> (24 \<le> prec \<and> 5 < max 0 (min 100 percent) \<longrightarrow>
        500 \<le> target_triac_delay_us (set_motor_power prec percent m)
        \<and> target_triac_delay_us (set_motor_power prec percent m) \<le> ac_half_cycle_time_us - 200
        \<and> 500 + (of_int ac_half_cycle_time_us - 200 - 500)
                    * ((100 - max 0 (min 100 percent)) / 100) - 1 - 1 / 100
             < of_int (target_triac_delay_us (set_motor_power prec percent m))
        \<and> of_int (target_triac_delay_us (set_motor_power prec percent m))
             \<le> 500 + (of_int ac_half_cycle_time_us - 200 - 500)
                        * ((100 - max 0 (min 100 percent)) / 100) + 1 / 100)
   \<and> (24 \<le> prec \<and> percent \<le> percent' \<longrightarrow>
        target_triac_delay_us (set_motor_power prec percent' m')
          \<le> target_triac_delay_us (set_motor_power prec percent m))"
proof -
  have clamp: "motor_power_percent (set_motor_power prec percent m) = max 0 (min 100 percent)"
    by (rule power_clamped)
  have off: "max 0 (min 100 percent) \<le> 5 \<longrightarrow>
        target_triac_delay_us (set_motor_power prec percent m) = ac_half_cycle_time_us + 100
        \<and> ac_half_cycle_time_us < target_triac_delay_us (set_motor_power prec percent m)
        \<and> triac_gate_pin (set_motor_power prec percent m)
            = map_option (\<lambda>_. False) (triac_gate_pin m)"
    using delay_dead_zone [OF _ refl, of percent prec m] gate_dead_zone [OF _ refl, of percent prec m]
    by simp
  have on: "5 < max 0 (min 100 percent) \<longrightarrow>
        target_triac_delay_us (set_motor_power prec percent m)
          = py_int (fadd prec 500
                      (fmul prec 9300
                         (fdiv prec (fsub prec 100 (max 0 (min 100 percent))) 100)))
        \<and> triac_gate_pin (set_motor_power prec percent m) = triac_gate_pin m"
    using delay_above_dead_zone [OF _ refl, of percent prec m] by blast
  have rng: "24 \<le> prec \<and> 5 < max 0 (min 100 percent) \<longrightarrow>
        500 \<le> target_triac_delay_us (set_motor_power prec percent m)
        \<and> target_triac_delay_us (set_motor_power prec percent m) \<le> ac_half_cycle_time_us - 200
        \<and> 500 + (of_int ac_half_cycle_time_us - 200 - 500)
                    * ((100 - max 0 (min 100 percent)) / 100) - 1 - 1 / 100
             < of_int (target_triac_delay_us (set_motor_power prec percent m))
        \<and> of_int (target_triac_delay_us (set_motor_power prec percent m))
             \<le> 500 + (of_int ac_half_cycle_time_us - 200 - 500)
                        * ((100 - max 0 (min 100 percent)) / 100) + 1 / 100"
  proof (intro impI, elim conjE)
    assume h: "24 \<le> prec" "5 < max 0 (min 100 percent)"
    have c: "(of_int ac_half_cycle_time_us - 200 - 500 :: rat) = 9300"
      by (simp add: ac_half_cycle_time_us_def)
    show "500 \<le> target_triac_delay_us (set_motor_power prec percent m)
        \<and> target_triac_delay_us (set_motor_power prec percent m) \<le> ac_half_cycle_time_us - 200
        \<and> 500 + (of_int ac_half_cycle_time_us - 200 - 500)
                    * ((100 - max 0 (min 100 percent)) / 100) - 1 - 1 / 100
             < of_int (target_triac_delay_us (set_motor_power prec percent m))
        \<and> of_int (target_triac_delay_us (set_motor_power prec percent m))
             \<le> 500 + (of_int ac_half_cycle_time_us - 200 - 500)
                        * ((100 - max 0 (min 100 percent)) / 100) + 1 / 100"
      unfolding c using delay_range [OF h refl, of m] by blast
  qed
  have anti: "24 \<le> prec \<and> percent \<le> percent' \<longrightarrow>
        target_triac_delay_us (set_motor_power prec percent' m')
          \<le> target_triac_delay_us (set_motor_power prec percent m)"
    using delay_antimono by blast
  show ?thesis using clamp off on rng anti by blast
qed

lemma delay_50_single:
  "py_int (fadd 24 500 (fmul 24 9300 (fdiv 24 (fsub 24 100 50) 100))) = 5150"
  by code_simp

lemma delay_100_single:
  "py_int (fadd 24 500 (fmul 24 9300 (fdiv 24 (fsub 24 100 100) 100))) = 500"
  by code_simp

lemma delay_11_2_single:
  "py_int (fadd 24 500 (fmul 24 9300 (fdiv 24 (fsub 24 100 (11 / 2)) 100))) = 9288"
  by code_simp

lemma delay_31_double:
  "py_int (fadd 53 500 (fmul 53 9300 (fdiv 53 (fsub 53 100 31) 100))) = 6916"
  by code_simp

text \<open>
  The theorem in single precision at 3 percent (dead zone), at 50 percent and at a
  request of 120 percent, for the motor state after \<open>init_motor_control\<close>.
\<close>

theorem set_motor_power_delay_witness:
  "target_triac_delay_us (set_motor_power 24 3 (init_motor_control motor_globals)) = 10100
   \<and> triac_gate_pin (set_motor_power 24 3 (init_motor_control motor_globals)) = Some False
   \<and> target_triac_delay_us (set_motor_power 24 50 (init_motor_control motor_globals)) = 5150
   \<and> triac_gate_pin (set_motor_power 24 50 (init_motor_control motor_globals)) = Some False
   \<and> (500 + (of_int ac_half_cycle_time_us - 200 - 500) * ((100 - 50) / 100) - 1 - 1 / 100
         < (5150::rat))
   \<and> ((5150::rat)
         \<le> 500 + (of_int ac_half_cycle_time_us - 200 - 500) * ((100 - 50) / 100) + 1 / 100)
   \<and> motor_power_percent (set_motor_power 24 120 (init_motor_control motor_globals)) = 100
   \<and> target_triac_delay_us (set_motor_power 24 120 (init_motor_control motor_globals))
       \<le> target_triac_delay_us (set_motor_power 24 50 (init_motor_control motor_globals))"
proof -
  let ?M = "init_motor_control motor_globals"
  have m3: "max 0 (min 100 (3::rat)) \<le> 5" by simp
  have m50: "5 < max 0 (min 100 (50::rat))" by simp
  have c50: "max 0 (min 100 (50::rat)) = 50" by simp
  have a: "target_triac_delay_us (set_motor_power 24 3 ?M) = 10100
           \<and> triac_gate_pin (set_motor_power 24 3 ?M) = Some False"
    using set_motor_power_delay [where prec = 24 and percent = 3 and m = ?M,
            THEN conjunct2, THEN conjunct1, rule_format, OF m3]
    by (simp add: init_motor_control_def motor_globals_def ac_half_cycle_time_us_def)
  have b: "target_triac_delay_us (set_motor_power 24 50 ?M) = 5150
           \<and> triac_gate_pin (set_motor_power 24 50 ?M) = Some False"
    using set_motor_power_delay [where prec = 24 and percent = 50 and m = ?M,
            THEN conjunct2, THEN conjunct2, THEN conjunct1, rule_format, OF m50]
    unfolding c50 delay_50_single
    by (simp add: init_motor_control_def motor_globals_def)
  have h: "24 \<le> (24::nat) \<and> 5 < max 0 (min 100 (50::rat))" by simp
  have c: "500 + (of_int ac_half_cycle_time_us - 200 - 500) * ((100 - 50) / 100) - 1 - 1 / 100
             < (5150::rat)
           \<and> (5150::rat)
             \<le> 500 + (of_int ac_half_cycle_time_us - 200 - 500) * ((100 - 50) / 100) + 1 / 100"
    using set_motor_power_delay [where prec = 24 and percent = 50 and m = ?M,
            THEN conjunct2, THEN conjunct2, THEN conjunct2, THEN conjunct1, rule_format, OF h]
    unfolding c50 using b by simp
  have d: "motor_power_percent (set_motor_power 24 120 ?M) = 100"
    using set_motor_power_delay [where prec = 24 and percent = 120 and m = ?M, THEN conjunct1]
    by simp
  have h2: "24 \<le> (24::nat) \<and> (50::rat) \<le> 120" by simp
  have e: "target_triac_delay_us (set_motor_power 24 120 ?M)
       \<le> target_triac_delay_us (set_motor_power 24 50 ?M)"
    by (rule set_motor_power_delay [where prec = 24 and percent = 50 and percent' = 120
            and m = ?M and m' = ?M,
            THEN conjunct2, THEN conjunct2, THEN conjunct2, THEN conjunct2, rule_format, OF h2])
  show ?thesis using a b c d e by blast
qed

text \<open>
  The claim as it was stated, with the delay equal to the linear map, fails at 5.5
  percent in single precision: the map gives 9288.5 microseconds and the code stores
  9288. It also fails at 31 percent in double precision: the map gives 6917, its float
  value lies just below, and the code stores 6916.
\<close>

theorem set_motor_power_delay_counterexample:
  "target_triac_delay_us (set_motor_power 24 (11 / 2) (init_motor_control motor_globals)) = 9288
   \<and> (500 + (of_int ac_half_cycle_time_us - 200 - 500) * ((100 - 11 / 2) / 100) :: rat) = 18577 / 2
   \<and> of_int (target_triac_delay_us (set_motor_power 24 (11 / 2) (init_motor_control motor_globals)))
       \<noteq> (500 + (of_int ac_half_cycle_time_us - 200 - 500) * ((100 - 11 / 2) / 100) :: rat)
   \<and> target_triac_delay_us (set_motor_power 53 31 (init_motor_control motor_globals)) = 6916
   \<and> (500 + (of_int ac_half_cycle_time_us - 200 - 500) * ((100 - 31) / 100) :: rat) = 6917"
  using delay_11_2_single delay_31_double
  by (simp add: set_motor_power_def Let_def init_motor_control_def motor_globals_def
        ac_half_cycle_time_us_def)

section \<open>The needle stop sequence\<close>

lemma calculate_rpm_Inr:
  "\<exists>rpm sm'. calculate_rpm prec t sm = Inr (rpm, sm')
     \<and> needle_up_sensor sm' = needle_up_sensor sm
     \<and> needle_down_sensor sm' = needle_down_sensor sm"
  by (simp add: calculate_rpm_def Let_def py_truediv_def RPM_POLES_def)

lemma isr_needle_flags:
  "needle_up_sensor (fold rpm_pulse_isr ticks sm) = needle_up_sensor sm
   \<and> needle_down_sensor (fold rpm_pulse_isr ticks sm) = needle_down_sensor sm"
  by (induction ticks arbitrary: sm) (simp_all add: rpm_pulse_isr_def)

lemma sample_rpm_Inr:
  "\<exists>rpm sm. sample_rpm prec ticks t s = Inr (rpm, s\<lparr>sensor_manager := sm\<rparr>)
     \<and> needle_up_sensor sm = needle_up_sensor (sensor_manager s)
     \<and> needle_down_sensor sm = needle_down_sensor (sensor_manager s)"
proof -
  obtain rpm sm' where c: "calculate_rpm prec t (fold rpm_pulse_isr ticks (sensor_manager s)) = Inr (rpm, sm')"
    and u: "needle_up_sensor sm' = needle_up_sensor (fold rpm_pulse_isr ticks (sensor_manager s))"
    and d: "needle_down_sensor sm' = needle_down_sensor (fold rpm_pulse_isr ticks (sensor_manager s))"
    using calculate_rpm_Inr by blast
  have "sample_rpm prec ticks t s = Inr (rpm, s\<lparr>sensor_manager := sm'\<rparr>)"
    using c by (simp add: sample_rpm_def)
  moreover have "needle_up_sensor sm' = needle_up_sensor (sensor_manager s)"
    using u isr_needle_flags by simp
  moreover have "needle_down_sensor sm' = needle_down_sensor (sensor_manager s)"
    using d isr_needle_flags by simp
  ultimately show ?thesis by blast
qed

lemma stop_poll_pass_Inr:
  "\<exists>rpm sm. stop_poll_pass prec ev s = Inr (s\<lparr>sensor_manager := sm, last_rpm := rpm\<rparr>)
     \<and> needle_up_sensor sm = needle_up_sensor (sensor_manager s)
     \<and> needle_down_sensor sm = needle_down_sensor (sensor_manager s)"
proof -
  obtain rpm sm where a: "sample_rpm prec (se_isr_ticks ev) (se_calc_time ev) s = Inr (rpm, s\<lparr>sensor_manager := sm\<rparr>)"
    and b: "needle_up_sensor sm = needle_up_sensor (sensor_manager s)"
    and c: "needle_down_sensor sm = needle_down_sensor (sensor_manager s)"
    using sample_rpm_Inr by blast
  have "stop_poll_pass prec ev s = Inr (s\<lparr>sensor_manager := sm, last_rpm := rpm\<rparr>)"
    using a by (simp add: stop_poll_pass_def)
  with b c show ?thesis by blast
qed


text \<open>Whatever the polling loop returns, it has not touched the motor state.\<close>

lemma stop_loop_motor:
  assumes "needle_stop_loop prec env T k s = Some r"
  shows "\<forall>n s'. r = Inr (n, s') \<longrightarrow> motor_control s' = motor_control s"
  using assms
proof (induct rule: needle_stop_loop.raw_induct [rotated 1, consumes 1, case_names 1])
  case (1 loop prec env T k s r)
  show ?case
  proof (cases "\<not> target_sensor_func (se_pin_level (env k)) s
         \<and> ticks_diff (ticks_ms (se_test_time (env k))) T < 0")
    case True
    obtain rpm sm where p: "stop_poll_pass prec (env k) s = Inr (s\<lparr>sensor_manager := sm, last_rpm := rpm\<rparr>)"
      using stop_poll_pass_Inr by blast
    from 1(2) True p have "loop prec env T (Suc k) (s\<lparr>sensor_manager := sm, last_rpm := rpm\<rparr>) = Some r"
      by simp
    from 1(1) [OF this] show ?thesis by simp
  next
    case False
    with 1(2) show ?thesis by auto
  qed
qed


lemma target_sensor_func_frame:
  "config s' = config s \<Longrightarrow>
   needle_up_sensor (sensor_manager s') = needle_up_sensor (sensor_manager s) \<Longrightarrow>
   needle_down_sensor (sensor_manager s') = needle_down_sensor (sensor_manager s) \<Longrightarrow>
   target_sensor_func level s' = target_sensor_func level s"
  by (simp add: target_sensor_func_def get_needle_down_status_def get_needle_up_status_def)

text \<open>
  The polling loop leaves at the first test that fails, having changed only the
  sensor module's state and \<open>last_rpm\<close>.
\<close>

lemma needle_stop_loop_exit:
  assumes "\<And>j. k \<le> j \<Longrightarrow> j < N \<Longrightarrow>
             \<not> target_sensor_func (se_pin_level (env j)) s
             \<and> ticks_diff (ticks_ms (se_test_time (env j))) T < 0"
    and "\<not> (\<not> target_sensor_func (se_pin_level (env N)) s
            \<and> ticks_diff (ticks_ms (se_test_time (env N))) T < 0)"
    and "k \<le> N"
  shows "\<exists>rpm sm. needle_stop_loop prec env T k s
            = Some (Inr (N, s\<lparr>sensor_manager := sm, last_rpm := rpm\<rparr>))
          \<and> needle_up_sensor sm = needle_up_sensor (sensor_manager s)
          \<and> needle_down_sensor sm = needle_down_sensor (sensor_manager s)"
  using assms
proof (induction "N - k" arbitrary: k s)
  case 0
  then have kN: "k = N" by simp
  have "needle_stop_loop prec env T N s = Some (Inr (N, s))"
    using "0.prems"(2) by (subst needle_stop_loop.simps) auto
  then have "needle_stop_loop prec env T k s
      = Some (Inr (N, s\<lparr>sensor_manager := sensor_manager s, last_rpm := last_rpm s\<rparr>))"
    using kN by simp
  then show ?case by blast
next
  case (Suc d)
  then have kN: "k < N" by simp
  have test: "\<not> target_sensor_func (se_pin_level (env k)) s
      \<and> ticks_diff (ticks_ms (se_test_time (env k))) T < 0"
    using Suc.prems(1) [of k] kN by simp
  obtain rpm sm where p: "stop_poll_pass prec (env k) s = Inr (s\<lparr>sensor_manager := sm, last_rpm := rpm\<rparr>)"
    and up: "needle_up_sensor sm = needle_up_sensor (sensor_manager s)"
    and down: "needle_down_sensor sm = needle_down_sensor (sensor_manager s)"
    using stop_poll_pass_Inr by blast
  let ?s1 = "s\<lparr>sensor_manager := sm, last_rpm := rpm\<rparr>"
  have same: "target_sensor_func level ?s1 = target_sensor_func level s" for level
    using up down by (intro target_sensor_func_frame) simp_all
  have unfold: "needle_stop_loop prec env T k s = needle_stop_loop prec env T (Suc k) ?s1"
    using test p by (subst needle_stop_loop.simps) simp
  have d: "d = N - Suc k" using Suc.hyps(2) by simp
  have "\<exists>rpm' sm'. needle_stop_loop prec env T (Suc k) ?s1
            = Some (Inr (N, ?s1\<lparr>sensor_manager := sm', last_rpm := rpm'\<rparr>))
          \<and> needle_up_sensor sm' = needle_up_sensor (sensor_manager ?s1)
          \<and> needle_down_sensor sm' = needle_down_sensor (sensor_manager ?s1)"
  proof (rule Suc.hyps(1) [OF d])
    fix j assume "Suc k \<le> j" "j < N"
    then show "\<not> target_sensor_func (se_pin_level (env j)) ?s1
             \<and> ticks_diff (ticks_ms (se_test_time (env j))) T < 0"
      using Suc.prems(1) [of j] same by simp
  next
    show "\<not> (\<not> target_sensor_func (se_pin_level (env N)) ?s1
            \<and> ticks_diff (ticks_ms (se_test_time (env N))) T < 0)"
      using Suc.prems(2) same by simp
  next
    show "Suc k \<le> N" using kN by simp
  qed
  then obtain rpm' sm' where r: "needle_stop_loop prec env T (Suc k) ?s1
            = Some (Inr (N, ?s1\<lparr>sensor_manager := sm', last_rpm := rpm'\<rparr>))"
    and up': "needle_up_sensor sm' = needle_up_sensor (sensor_manager ?s1)"
    and down': "needle_down_sensor sm' = needle_down_sensor (sensor_manager ?s1)"
    by blast
  have "needle_stop_loop prec env T k s = Some (Inr (N, s\<lparr>sensor_manager := sm', last_rpm := rpm'\<rparr>))"
    using unfold r by simp
  moreover have "needle_up_sensor sm' = needle_up_sensor (sensor_manager s)"
    using up' up by simp
  moreover have "needle_down_sensor sm' = needle_down_sensor (sensor_manager s)"
    using down' down by simp
  ultimately show ?case by blast
qed








text \<open>
  Claim C5. The polling loop of the stop sequence sleeps at least 50 ms in each pass.
  With the first test made no earlier than the deadline was computed, and successive
  tests at least 50 ms and less than half a counter period apart, the stop sequence
  returns after at most 100 passes, whatever the sensor does; it raises nothing; the
  motor power is 0 afterwards with the firing delay at its off value; the message is
  the success message exactly when the sensor is asserted at the final read, and the
  time-out message otherwise. When the sensor never asserts, the loop is left at a
  test made 5000 ms or more after the deadline was computed.
\<close>

theorem stop_sequence_terminates:
  assumes start: "t_stamp \<le> se_test_time (env 0)" "se_test_time (env 0) - t_stamp \<le> 2 ^ 29"
    and step: "\<forall>k. se_test_time (env k) + 50 \<le> se_test_time (env (Suc k))"
              "\<forall>k. se_test_time (env (Suc k)) - se_test_time (env k) \<le> 2 ^ 29"
  shows "\<exists>n report s'.
           needle_stop_sequence prec t_stamp env final_level s = Some (Inr (n, report, s'))
         \<and> n \<le> 100
         \<and> motor_power_percent (motor_control s') = 0
         \<and> target_triac_delay_us (motor_control s') = ac_half_cycle_time_us + 100
         \<and> report = (if target_sensor_func final_level s
                      then NeedleStopped else NeedleStopTimedOut)
         \<and> ((\<forall>k. \<not> target_sensor_func (se_pin_level (env k)) s) \<longrightarrow>
                t_stamp + 5000 \<le> se_test_time (env n))"
proof -
  let ?\<tau> = "\<lambda>k. se_test_time (env k)"
  let ?T = "ticks_ms t_stamp + 5000"
  let ?s1 = "needle_stop_begin prec s"
  let ?cond = "\<lambda>j. \<not> target_sensor_func (se_pin_level (env j)) ?s1
                   \<and> ticks_diff (ticks_ms (?\<tau> j)) ?T < 0"
  have same: "target_sensor_func level ?s1 = target_sensor_func level s" for level
    by (intro target_sensor_func_frame) (simp_all add: needle_stop_begin_def)
  obtain N0 where N0: "N0 \<le> 100"
    and early: "\<forall>k<N0. ticks_diff (ticks_ms (?\<tau> k)) ?T < 0"
    and late: "\<not> ticks_diff (ticks_ms (?\<tau> N0)) ?T < 0"
    and reached: "t_stamp + 5000 \<le> ?\<tau> N0"
    using deadline_reached [of t_stamp ?\<tau> 50 5000 100] start step by auto
  have ex: "\<exists>j. \<not> ?cond j" using late by blast
  define N where "N = (LEAST j. \<not> ?cond j)"
  have stopN: "\<not> ?cond N" unfolding N_def using ex by (rule LeastI_ex)
  have runN: "?cond j" if "j < N" for j
    using not_less_Least [of j "\<lambda>j. \<not> ?cond j"] that unfolding N_def by blast
  have NN0: "N \<le> N0" unfolding N_def using late by (intro Least_le) blast
  obtain rpm sm where loop: "needle_stop_loop prec env ?T 0 ?s1
        = Some (Inr (N, ?s1\<lparr>sensor_manager := sm, last_rpm := rpm\<rparr>))"
    and up: "needle_up_sensor sm = needle_up_sensor (sensor_manager ?s1)"
    and down: "needle_down_sensor sm = needle_down_sensor (sensor_manager ?s1)"
    using needle_stop_loop_exit [of 0 N env ?s1 ?T] runN stopN by blast
  let ?s2 = "?s1\<lparr>sensor_manager := sm, last_rpm := rpm\<rparr>"
  let ?s3 = "?s2\<lparr>motor_control := set_motor_power prec 0 (motor_control ?s2)\<rparr>"
  let ?report = "if target_sensor_func final_level ?s3 then NeedleStopped else NeedleStopTimedOut"
  have result: "needle_stop_sequence prec t_stamp env final_level s = Some (Inr (N, ?report, ?s3))"
    using loop by (simp add: needle_stop_sequence_def Let_def)
  have final: "target_sensor_func final_level ?s3 = target_sensor_func final_level s"
    using up down by (intro target_sensor_func_frame) (simp_all add: needle_stop_begin_def)
  have power: "motor_power_percent (motor_control ?s3) = 0"
    by (simp add: power_clamped)
  have delay: "target_triac_delay_us (motor_control ?s3) = ac_half_cycle_time_us + 100"
    by (simp add: delay_dead_zone [of 0])
  have never: "t_stamp + 5000 \<le> ?\<tau> N"
    if "\<forall>k. \<not> target_sensor_func (se_pin_level (env k)) s"
  proof -
    have "\<not> ticks_diff (ticks_ms (?\<tau> N)) ?T < 0"
      using stopN that same by simp
    then have "\<not> N < N0" using early by blast
    then have "N = N0" using NN0 by simp
    then show ?thesis using reached by simp
  qed
  have "N \<le> 100" using NN0 N0 by simp
  then show ?thesis
    using result power delay final never by (intro exI [of _ N] exI [of _ ?report] exI [of _ ?s3]) simp
qed

text \<open>
  The theorem for a needle-down sensor that stays high (inactive) and tests 50 ms
  apart: the sequence ends with the time-out message.
\<close>

theorem stop_sequence_terminates_witness:
  "(1000::int) \<le> se_test_time \<lparr>se_pin_level = True, se_test_time = 1000 + 50 * int 0,
                                  se_isr_ticks = [], se_calc_time = 1000 + 50 * int 0\<rparr>
   \<and> (\<exists>n s'. needle_stop_sequence 24 1000
                (\<lambda>k. \<lparr>se_pin_level = True, se_test_time = 1000 + 50 * int k,
                       se_isr_ticks = [], se_calc_time = 1000 + 50 * int k\<rparr>)
                True
                ((main_loop_init 0 main_globals)\<lparr>is_pedal_pressed := False\<rparr>)
              = Some (Inr (n, NeedleStopTimedOut, s'))
            \<and> n \<le> 100
            \<and> motor_power_percent (motor_control s') = 0
            \<and> 6000 \<le> 1000 + 50 * int n)"
proof -
  let ?env = "\<lambda>k. \<lparr>se_pin_level = True, se_test_time = 1000 + 50 * int k,
                       se_isr_ticks = [], se_calc_time = 1000 + 50 * int k\<rparr>"
  let ?s = "(main_loop_init 0 main_globals)\<lparr>is_pedal_pressed := False\<rparr>"
  have down: "\<And>level. target_sensor_func level ?s = (\<not> level)"
    by (simp add: target_sensor_func_def get_needle_down_status_def main_loop_init_def
          main_globals_def DEFAULT_CONFIG_def init_sensors_def sensor_globals_def)
  have h1: "(1000::int) \<le> se_test_time (?env 0)" by simp
  have h2: "se_test_time (?env 0) - 1000 \<le> 2 ^ 29" by simp
  have h3: "\<forall>k. se_test_time (?env k) + 50 \<le> se_test_time (?env (Suc k))" by simp
  have h4: "\<forall>k. se_test_time (?env (Suc k)) - se_test_time (?env k) \<le> 2 ^ 29" by simp
  show ?thesis
    using stop_sequence_terminates [where prec = 24 and final_level = True and s = ?s
            and t_stamp = 1000 and env = ?env, OF h1 h2 h3 h4] down
    by auto
qed

section \<open>Maximum-RPM calibration\<close>

text \<open>
  Claim C1 says that the calibration samples the RPM every 100 ms for 5 seconds and
  writes the largest sample to \<open>max_motor_rpm\<close>. The loop of
  \<open>run_max_rpm_calibration\<close> tests \<open>ticks_diff(ticks_ms(), start_time) < 0\<close>; the
  duration \<open>calibration_duration_ms\<close> it declares is not used. When the first test is
  made at or after the start time, and less than half a counter period after it, the
  test fails at once: the routine takes no sample (the sensor module's state is
  untouched), sets the power to 0 and, when not cancelled, writes 0 to
  \<open>max_motor_rpm\<close>.
\<close>

theorem calibration_never_samples:
  assumes "t_start \<le> ce_test_time (env 0)" "ce_test_time (env 0) - t_start < 2 ^ 29"
  shows "\<exists>s'. run_max_rpm_calibration prec t_start env s = Some (Inr (0, s'))
            \<and> sensor_manager s' = sensor_manager s
            \<and> motor_power_percent (motor_control s') = 0
            \<and> \<not> max_rpm_calibration_active s'
            \<and> config s' = (if max_rpm_calibration_active s
                           then (config s)\<lparr>max_motor_rpm := 0\<rparr> else config s)"
proof -
  let ?s1 = "s\<lparr>motor_control := set_motor_power prec 100 (motor_control s)\<rparr>"
  have "ticks_diff (ticks_ms (ce_test_time (env 0))) (ticks_ms t_start + 0)
          = ce_test_time (env 0) - t_start - 0"
    using assms by (intro ticks_diff_exact) simp_all
  then have test: "\<not> ticks_diff (ticks_ms (ce_test_time (env 0))) (ticks_ms t_start) < 0"
    using assms(1) by simp
  have loop: "calibration_loop prec env (ticks_ms t_start) 0 0 ?s1 = Some (Inr (0, 0, ?s1))"
    using test by (subst calibration_loop.simps) simp
  show ?thesis
    using loop by (simp add: run_max_rpm_calibration_def Let_def power_clamped)
qed

text \<open>
  The theorem for a calibration started at 1000 ms with the flag set, on a motor
  that gives three pulses every 100 ms (1800 RPM): the configured 2000 is replaced
  by 0.
\<close>

theorem calibration_never_samples_witness:
  "(1000::int) \<le> ce_test_time \<lparr>ce_test_time = 1000 + 100 * int 0,
        ce_isr_ticks = [1010000, 1040000, 1070000],
        ce_calc_time = 1000 + 100 * int 0, ce_stop = False\<rparr>
   \<and> max_rpm_calibration_active ((main_loop_init 0 main_globals)\<lparr>max_rpm_calibration_active := True\<rparr>)
   \<and> max_motor_rpm (config ((main_loop_init 0 main_globals)\<lparr>max_rpm_calibration_active := True\<rparr>)) = 2000
   \<and> (\<exists>s'. run_max_rpm_calibration 24 1000
               (\<lambda>k. \<lparr>ce_test_time = 1000 + 100 * int k,
                      ce_isr_ticks = [1010000 + 100000 * int k, 1040000 + 100000 * int k,
                                      1070000 + 100000 * int k],
                      ce_calc_time = 1000 + 100 * int k, ce_stop = False\<rparr>)
               ((main_loop_init 0 main_globals)\<lparr>max_rpm_calibration_active := True\<rparr>)
             = Some (Inr (0, s'))
           \<and> max_motor_rpm (config s') = 0)"
proof -
  let ?env = "\<lambda>k. \<lparr>ce_test_time = 1000 + 100 * int k,
                      ce_isr_ticks = [1010000 + 100000 * int k, 1040000 + 100000 * int k,
                                      1070000 + 100000 * int k],
                      ce_calc_time = 1000 + 100 * int k, ce_stop = False\<rparr>"
  let ?s = "(main_loop_init 0 main_globals)\<lparr>max_rpm_calibration_active := True\<rparr>"
  have h1: "(1000::int) \<le> ce_test_time (?env 0)" by simp
  have h2: "ce_test_time (?env 0) - 1000 < 2 ^ 29" by simp
  show ?thesis
    using calibration_never_samples [where prec = 24 and s = ?s and t_start = 1000
            and env = ?env, OF h1 h2]
    by (auto simp: main_loop_init_def main_globals_def DEFAULT_CONFIG_def)
qed

end
